theory Spec2Isabelle
  imports Complex_Main "HOL-Library.Log_Nat"
begin

section \<open>Data model\<close>

subsection \<open>Naive datetimes\<close>

text \<open>
  A naive Python \<^verbatim>\<open>datetime\<close> is a point on the proleptic Gregorian time line with
  microsecond resolution. It is represented by the number of microseconds since
  0001-01-01T00:00:00 (the day with ordinal 1). The representation is one-to-one on
  datetimes, so \<^verbatim>\<open>==\<close>, \<^verbatim>\<open><\<close> and \<^verbatim>\<open>isoformat()\<close> equality are equality and order
  on the integers. A \<^verbatim>\<open>timedelta\<close> is a signed number of microseconds, and
  \<^verbatim>\<open>timedelta.days\<close> is the floor of the quotient by one day, as Python normalises it.

  Python raises \<^verbatim>\<open>OverflowError\<close> when a result leaves the years 1..9999; the arithmetic
  below is the unbounded one, and \<open>valid_datetime\<close> states the range.
\<close>

type_synonym datetime = int
type_synonym timedelta = int

definition DAY :: int where
  "DAY = 86400000000"

definition td_days :: "int \<Rightarrow> timedelta" where
  "td_days n = n * DAY"

definition td_hours :: "int \<Rightarrow> timedelta" where
  "td_hours n = n * 3600000000"

definition td_seconds :: "int \<Rightarrow> timedelta" where
  "td_seconds n = n * 1000000"

definition days_of :: "timedelta \<Rightarrow> int" where
  "days_of d = d div DAY"

definition date_of :: "datetime \<Rightarrow> int" where
  "date_of t = t div DAY"

definition dt_hour :: "datetime \<Rightarrow> int" where
  "dt_hour t = (t mod DAY) div 3600000000"

definition dt_minute :: "datetime \<Rightarrow> int" where
  "dt_minute t = ((t mod DAY) div 60000000) mod 60"

definition dt_second :: "datetime \<Rightarrow> int" where
  "dt_second t = ((t mod DAY) div 1000000) mod 60"

definition dt_microsecond :: "datetime \<Rightarrow> int" where
  "dt_microsecond t = t mod 1000000"

text \<open>\<^verbatim>\<open>d.replace(hour=h, minute=m, second=s, microsecond=us)\<close>: same calendar day.\<close>

definition replace_time :: "datetime \<Rightarrow> int \<Rightarrow> int \<Rightarrow> int \<Rightarrow> int \<Rightarrow> datetime" where
  "replace_time t h m s us = date_of t * DAY + ((h * 60 + m) * 60 + s) * 1000000 + us"

text \<open>\<^verbatim>\<open>d.replace(second=s, microsecond=us)\<close> and \<^verbatim>\<open>d.replace(microsecond=us)\<close>.\<close>

definition replace_second :: "datetime \<Rightarrow> int \<Rightarrow> int \<Rightarrow> datetime" where
  "replace_second t s us = replace_time t (dt_hour t) (dt_minute t) s us"

definition replace_microsecond :: "datetime \<Rightarrow> int \<Rightarrow> datetime" where
  "replace_microsecond t us = t - dt_microsecond t + us"

text \<open>\<^verbatim>\<open>date.weekday()\<close> is \<^verbatim>\<open>(toordinal() + 6) % 7\<close>; the ordinal is \<open>date_of t + 1\<close>.\<close>

definition weekday :: "datetime \<Rightarrow> int" where
  "weekday t = (date_of t + 1 + 6) mod 7"

text \<open>\<^verbatim>\<open>datetime.max\<close> is 9999-12-31T23:59:59.999999, the last microsecond of ordinal 3652059.\<close>

definition valid_datetime :: "datetime \<Rightarrow> bool" where
  "valid_datetime t \<longleftrightarrow> 0 \<le> t \<and> t < 3652059 * DAY"

subsection \<open>JSON values and Python dictionaries\<close>

text \<open>
  The values that \<^verbatim>\<open>json.load\<close> and \<^verbatim>\<open>json.loads\<close> return, over a type of characters: the
  deduplication works on Latin-1 text (\<open>char\<close>), the decoder of \<^verbatim>\<open>json.loads\<close> returns
  code points (\<open>nat\<close>), since an escape \<^verbatim>\<open>\uXXXX\<close> can denote any. A \<^verbatim>\<open>float\<close> is kept as the
  literal it was read from. A \<^verbatim>\<open>dict\<close> is the list of its items in insertion order.
\<close>

datatype 'c json =
    JNull
  | JBool bool
  | JInt int
  | JFloat string
  | JString "'c list"
  | JArray "'c json list"
  | JObject "('c list \<times> 'c json) list"

datatype py_error =
    AttributeError
  | OverflowError

text \<open>
  Strings are lists of code points below 256. \<^verbatim>\<open>str.isspace\<close> holds there for
  TAB..CR, FS..US, space, NEL (0x85) and NBSP (0xA0); \<^verbatim>\<open>str.lower\<close> moves A..Z and the
  Latin-1 capitals 0xC0..0xDE (without 0xD7) up by 32.
\<close>

definition is_space :: "char \<Rightarrow> bool" where
  "is_space c = (let n = (of_char c :: nat) in
     (9 \<le> n \<and> n \<le> 13) \<or> (28 \<le> n \<and> n \<le> 32) \<or> n = 133 \<or> n = 160)"

definition strip :: "string \<Rightarrow> string" where
  "strip s = rev (dropWhile is_space (rev (dropWhile is_space s)))"

definition lower_char :: "char \<Rightarrow> char" where
  "lower_char c = (let n = (of_char c :: nat) in
     if (65 \<le> n \<and> n \<le> 90) \<or> (192 \<le> n \<and> n \<le> 222 \<and> n \<noteq> 215)
     then char_of (n + 32) else c)"

definition lower :: "string \<Rightarrow> string" where
  "lower s = map lower_char s"

section \<open>helpers.skip\_weekend\<close>

definition skip_weekend :: "datetime \<Rightarrow> datetime" where
  "skip_weekend date =
     (let weekday = weekday date in
      if weekday = 5 then date + td_days 2
      else if weekday = 6 then date + td_days 1
      else date)"

section \<open>The deduplication loop of seed\_example\_entity\<close>

text \<open>
  \<^verbatim>\<open>entities_data\<close> is the list that \<^verbatim>\<open>json.load\<close> read from the data file, so an entity
  is any JSON value. \<^verbatim>\<open>entity.get("name", "").strip()\<close>: only an object has \<^verbatim>\<open>get\<close>; its
  default is the empty string; a value that is not a string has no \<^verbatim>\<open>strip\<close>. Both
  failures are an \<^verbatim>\<open>AttributeError\<close>, which nothing in the function catches.
\<close>

definition entity_name :: "char json \<Rightarrow> py_error + string" where
  "entity_name entity =
     (case entity of
        JObject fields \<Rightarrow>
          (case map_of fields ''name'' of
             None \<Rightarrow> Inr (strip '''')
           | Some (JString s) \<Rightarrow> Inr (strip s)
           | Some _ \<Rightarrow> Inl AttributeError)
      | _ \<Rightarrow> Inl AttributeError)"

fun dedup_loop :: "string set \<Rightarrow> char json list \<Rightarrow> char json list \<Rightarrow> py_error + char json list" where
  "dedup_loop seen_names unique_entities [] = Inr unique_entities"
| "dedup_loop seen_names unique_entities (entity # rest) =
     (case entity_name entity of
        Inl err \<Rightarrow> Inl err
      | Inr name \<Rightarrow>
          if name = [] then dedup_loop seen_names unique_entities rest
          else
            let name_lower = lower name in
            if name_lower \<notin> seen_names
            then dedup_loop (insert name_lower seen_names) (unique_entities @ [entity]) rest
            else dedup_loop seen_names unique_entities rest)"

definition deduplicate :: "char json list \<Rightarrow> py_error + char json list" where
  "deduplicate entities_data = dedup_loop {} [] entities_data"

text \<open>The case-insensitive trimmed name of a record (empty when the name is missing).\<close>

definition name_key :: "char json \<Rightarrow> string" where
  "name_key entity = (case entity_name entity of Inr name \<Rightarrow> lower name | Inl _ \<Rightarrow> [])"

text \<open>Record \<open>i\<close> is kept: its key is non-empty and no earlier record (nor \<open>seen\<close>) has it.\<close>

definition first_seen :: "string set \<Rightarrow> char json list \<Rightarrow> nat \<Rightarrow> bool" where
  "first_seen seen es i \<longleftrightarrow>
     name_key (es ! i) \<noteq> [] \<and> name_key (es ! i) \<notin> seen \<union> name_key ` set (take i es)"

definition kept :: "string set \<Rightarrow> char json list \<Rightarrow> char json list" where
  "kept seen es = map (\<lambda>i. es ! i) (filter (first_seen seen es) [0..<length es])"

section \<open>helpers.ensure\_unique\_datetime\<close>

text \<open>
  \<^verbatim>\<open>used_dates\<close> is a set of \<^verbatim>\<open>isoformat()\<close> strings; \<^verbatim>\<open>isoformat\<close> is one-to-one on naive
  datetimes (the fraction is printed exactly when the microseconds are not zero) and the
  function only ever tests and adds such strings, so the set is represented by the
  datetimes whose string it holds, and \<^verbatim>\<open>timestamp_str\<close> by the datetime it was formatted
  from. The two \<^verbatim>\<open>logger.warning\<close> calls are recorded in order. The loop variable
  \<^verbatim>\<open>attempt\<close> is returned as it stands when the function leaves (0 when the loop was never
  entered). \<^verbatim>\<open>original_date + timedelta(seconds=attempt)\<close> and the subtraction raise
  \<^verbatim>\<open>OverflowError\<close> when the result leaves the years 1..9999; nothing catches it.
\<close>

datatype warning = CannotFindInRange | CouldNotFindUnique

record unique_result =
  returned :: datetime
  used_after :: "datetime set"
  counters_after :: "string \<rightharpoonup> int"
  warnings :: "warning list"
  last_attempt :: nat

definition max_attempts :: nat where
  "max_attempts = 86400"

text \<open>
  The \<^verbatim>\<open>for attempt in range(1, max_attempts + 1)\<close> loop. The result is
  \<open>(found, date, timestamp_str, warnings, attempt)\<close>: \<open>found\<close> when the loop left through
  its \<^verbatim>\<open>return date\<close>, otherwise the variables as the \<^verbatim>\<open>break\<close> or the end of the range
  leaves them. The backward date is computed only when the forward one is past
  \<^verbatim>\<open>max_date\<close>.
\<close>

function probe_loop ::
  "datetime \<Rightarrow> datetime set \<Rightarrow> datetime option \<Rightarrow> datetime option \<Rightarrow> datetime \<Rightarrow> datetime
     \<Rightarrow> nat \<Rightarrow> py_error + bool \<times> datetime \<times> datetime \<times> warning list \<times> nat" where
  "probe_loop original_date used_dates min_date max_date date timestamp_str attempt =
     (if max_attempts < attempt then Inr (False, date, timestamp_str, [], attempt - 1)
      else
        let forward = original_date + td_seconds (int attempt) in
        if \<not> valid_datetime forward then Inl OverflowError
        else
          let past_max = (case max_date of None \<Rightarrow> False | Some mx \<Rightarrow> mx < forward);
              backward = original_date - td_seconds (int attempt)
          in
            if past_max \<and> \<not> valid_datetime backward then Inl OverflowError
            else
              let below_min = (case min_date of None \<Rightarrow> False | Some mn \<Rightarrow> backward < mn) in
              if past_max \<and> below_min
              then Inr (False, backward, timestamp_str, [CannotFindInRange], attempt)
              else
                let date' = (if past_max then backward else forward) in
                if date' \<notin> used_dates then Inr (True, date', date', [], attempt)
                else probe_loop original_date used_dates min_date max_date date' date' (Suc attempt))"
  by pat_completeness auto
termination
  by (relation "measure (\<lambda>(original_date, used_dates, min_date, max_date, date, timestamp_str, attempt).
        Suc max_attempts - attempt)") auto

definition ensure_unique_datetime ::
  "datetime \<Rightarrow> datetime set \<Rightarrow> datetime option \<Rightarrow> datetime option \<Rightarrow> string
     \<Rightarrow> (string \<rightharpoonup> int) \<Rightarrow> py_error + unique_result" where
  "ensure_unique_datetime date0 used_dates min_date max_date field_name counters =
     (let date1 = replace_microsecond date0 0;
          date2 = (case max_date of None \<Rightarrow> date1 | Some mx \<Rightarrow> if mx < date1 then mx else date1);
          date = (case min_date of None \<Rightarrow> date2 | Some mn \<Rightarrow> if date2 < mn then mn else date2)
      in
        if date \<notin> used_dates
        then Inr \<lparr>returned = date, used_after = insert date used_dates, counters_after = counters,
               warnings = [], last_attempt = 0\<rparr>
        else
          let counters' = (case counters field_name of
                             None \<Rightarrow> counters
                           | Some c \<Rightarrow> if field_name \<noteq> [] then counters(field_name \<mapsto> c + 1)
                                       else counters)
          in
            case probe_loop date used_dates min_date max_date date date 1 of
              Inl err \<Rightarrow> Inl err
            | Inr (True, d, ts, ws, a) \<Rightarrow>
                Inr \<lparr>returned = d, used_after = insert ts used_dates, counters_after = counters',
                  warnings = ws, last_attempt = a\<rparr>
            | Inr (False, d, ts, ws, a) \<Rightarrow>
                Inr \<lparr>returned = d, used_after = insert ts used_dates, counters_after = counters',
                  warnings = ws @ [CouldNotFindUnique], last_attempt = a\<rparr>)"

text \<open>The date probed at step \<open>k\<close>: forward, or backward when forward is past \<^verbatim>\<open>max_date\<close>.\<close>

definition probe_date :: "datetime \<Rightarrow> datetime option \<Rightarrow> nat \<Rightarrow> datetime" where
  "probe_date original_date max_date k =
     (case max_date of
        None \<Rightarrow> original_date + td_seconds (int k)
      | Some mx \<Rightarrow> if mx < original_date + td_seconds (int k)
                  then original_date - td_seconds (int k)
                  else original_date + td_seconds (int k))"

text \<open>Step \<open>k\<close> leaves the range: forward is past \<^verbatim>\<open>max_date\<close> and backward below \<^verbatim>\<open>min_date\<close>.\<close>

definition out_of_range :: "datetime \<Rightarrow> datetime option \<Rightarrow> datetime option \<Rightarrow> nat \<Rightarrow> bool" where
  "out_of_range original_date min_date max_date k =
     ((case max_date of None \<Rightarrow> False | Some mx \<Rightarrow> mx < original_date + td_seconds (int k))
      \<and> (case min_date of None \<Rightarrow> False | Some mn \<Rightarrow> original_date - td_seconds (int k) < mn))"

text \<open>Step \<open>k\<close> raises: a date it computes is outside the years 1..9999.\<close>

definition overflows :: "datetime \<Rightarrow> datetime option \<Rightarrow> nat \<Rightarrow> bool" where
  "overflows original_date max_date k =
     (\<not> valid_datetime (original_date + td_seconds (int k))
      \<or> ((case max_date of None \<Rightarrow> False | Some mx \<Rightarrow> mx < original_date + td_seconds (int k))
           \<and> \<not> valid_datetime (original_date - td_seconds (int k))))"

text \<open>The date the probing starts from: whole seconds, then clamped to the bounds.\<close>

definition clamped :: "datetime \<Rightarrow> datetime option \<Rightarrow> datetime option \<Rightarrow> datetime" where
  "clamped date0 min_date max_date =
     (let date1 = replace_microsecond date0 0;
          date2 = (case max_date of None \<Rightarrow> date1 | Some mx \<Rightarrow> if mx < date1 then mx else date1)
      in case min_date of None \<Rightarrow> date2 | Some mn \<Rightarrow> if date2 < mn then mn else date2)"

text \<open>
  The datetime whose \<^verbatim>\<open>isoformat()\<close> is the second-granularity ISO form
  \<^verbatim>\<open>YYYY-MM-DDTHH:MM:SS\<close> of \<open>t\<close>.
\<close>

definition second_granularity :: "datetime \<Rightarrow> datetime" where
  "second_granularity t = replace_microsecond t 0"

section \<open>data\_utils.update\_entity\_dates\<close>

text \<open>
  The dates of one record, as the body of the \<^verbatim>\<open>for idx, seeded in enumerate(seeded_items)\<close>
  loop computes them for a record with a truthy id. \<open>now\<close> is the reading taken once
  before the loop; \<open>days_range\<close> is \<^verbatim>\<open>months_back * 30\<close>; \<open>date_idx\<close> is
  \<^verbatim>\<open>index_mapping[idx]\<close>. The reference dates are given as \<^verbatim>\<open>safe_strptime\<close> returns them:
  \<open>None\<close> when the record has no original item, the field is empty, or it does not parse.
  The later \<^verbatim>\<open>datetime.now()\<close> calls are the parameters \<open>now_a\<close>, \<open>now_b\<close> (lines 173, 174)
  and \<open>now_c\<close> (line 193).

\<close>

subsection \<open>Python floats\<close>

text \<open>
  A Python \<^verbatim>\<open>float\<close> is an IEEE 754 binary64 number and is represented by the real number it
  denotes. Every operation computes the exact result and rounds it to the nearest number
  with a 53-bit significand, ties to the even significand. The values of this function
  stay far inside the normal range (magnitudes from \<^verbatim>\<open>2**-1022\<close> to below \<^verbatim>\<open>2**1024\<close>), so
  subnormal numbers, infinities and \<^verbatim>\<open>OverflowError\<close> are left out.
\<close>

definition round_half_even :: "real \<Rightarrow> int" where
  "round_half_even x =
     (let n = \<lfloor>x\<rfloor>; r = x - of_int n in
      if r < 1 / 2 then n else if 1 / 2 < r then n + 1 else if even n then n else n + 1)"

text \<open>The exponent \<open>\<lfloor>log\<^sub>2 x\<rfloor>\<close> of a positive number, from the bit length of an integer.\<close>

definition ilog2 :: "real \<Rightarrow> int" where
  "ilog2 x = (if 1 \<le> x then bitlen \<lfloor>x\<rfloor> - 1 else - bitlen (\<lceil>1 / x\<rceil> - 1))"

definition double :: "real \<Rightarrow> real" where
  "double x =
     (if x = 0 then 0
      else let e = ilog2 \<bar>x\<bar> - 52 in of_int (round_half_even (x / 2 powi e)) * 2 powi e)"

text \<open>
  \<^verbatim>\<open>float(n)\<close> (also the implicit conversion of an \<^verbatim>\<open>int\<close> operand), \<^verbatim>\<open>a / b\<close> on two
  \<^verbatim>\<open>int\<close>s (correctly rounded), \<^verbatim>\<open>x * y\<close> and \<^verbatim>\<open>x + y\<close> on two \<^verbatim>\<open>float\<close>s. \<^verbatim>\<open>int(x)\<close>
  truncates towards zero.
\<close>

definition float_of_int :: "int \<Rightarrow> real" where
  "float_of_int n = double (of_int n)"

definition int_truediv :: "int \<Rightarrow> int \<Rightarrow> real" where
  "int_truediv a b = double (of_int a / of_int b)"

definition float_mul :: "real \<Rightarrow> real \<Rightarrow> real" where
  "float_mul x y = double (x * y)"

definition float_add :: "real \<Rightarrow> real \<Rightarrow> real" where
  "float_add x y = double (x + y)"

definition py_int :: "real \<Rightarrow> int" where
  "py_int x = (if 0 \<le> x then \<lfloor>x\<rfloor> else \<lceil>x\<rceil>)"

subsection \<open>The dates of one record\<close>

text \<open>\<^verbatim>\<open>index_mapping\<close>: the identity, or the shuffled indices.\<close>

definition index_mapping :: "bool \<Rightarrow> nat list \<Rightarrow> nat \<Rightarrow> int" where
  "index_mapping shuffle_dates shuffled_indices idx =
     (if shuffle_dates then int (shuffled_indices ! idx) else int idx)"

text \<open>
  \<^verbatim>\<open>d.replace(hour=hours, minute=minutes, second=seconds, microsecond=microseconds)\<close>
  with the four values synthesized from the index (lines 158-163, 187-194, 264-269).
\<close>

definition created_time_of_day :: "int \<Rightarrow> datetime \<Rightarrow> datetime" where
  "created_time_of_day date_idx d =
     (let hours = 8 + ((date_idx * 7) mod 10);
          hours = min 17 (max 8 hours);
          minutes = (date_idx * 11) mod 60;
          seconds = (date_idx * 19) mod 60;
          microseconds = (date_idx * 23) mod 1000000
      in replace_time d hours minutes seconds microseconds)"

text \<open>
  Lines 133-167: the creation date from a parsed reference creation date; \<open>blended_days\<close> is
  the day offset of lines 136-148.
\<close>

definition blended_days :: "datetime \<Rightarrow> int \<Rightarrow> int \<Rightarrow> int \<Rightarrow> datetime \<Rightarrow> int" where
  "blended_days now days_range total_items date_idx parsed_date =
     (let min_date = now - td_days days_range;
          days_offset =
            (if 1 < total_items then
               let linear_offset = float_mul (int_truediv date_idx (total_items - 1))
                                     (float_of_int days_range);
                   variation_divisor = max 10 (days_range div 10);
                   prime_variation = (if 0 < variation_divisor
                                      then (date_idx * 17) mod variation_divisor else 0)
               in py_int (float_add linear_offset (float_of_int prime_variation))
             else days_range div 2);
          days_from_parsed = days_of (parsed_date - min_date);
          days_from_parsed = max 0 (min days_from_parsed days_range);
          blended_days = py_int (float_add (float_mul (double (3 / 10)) (float_of_int days_from_parsed))
                                           (float_mul (double (7 / 10)) (float_of_int days_offset)))
      in max 0 (min blended_days days_range))"

definition created_from_reference :: "datetime \<Rightarrow> int \<Rightarrow> int \<Rightarrow> int \<Rightarrow> datetime \<Rightarrow> datetime" where
  "created_from_reference now days_range total_items date_idx parsed_date0 =
     (let min_date = now - td_days days_range;
          parsed_date = (if now < parsed_date0 then now - td_days 1 else parsed_date0);
          blended_days = blended_days now days_range total_items date_idx parsed_date;
          created_date = min_date + td_days blended_days;
          created_date = (if now < created_date then now - td_days 1 else created_date);
          created_date = (if created_date < min_date then min_date else created_date);
          created_date = created_time_of_day date_idx created_date
      in if now < created_date then created_time_of_day date_idx (now - td_days 1)
         else created_date)"

text \<open>Lines 177-185: the days-ago value of a record without a reference creation date.\<close>

definition position_days_ago :: "int \<Rightarrow> int \<Rightarrow> int \<Rightarrow> int" where
  "position_days_ago days_range total_items date_idx =
     (let days_ago =
            (if 1 < total_items then
               let linear_days = float_add (float_of_int 1)
                                   (float_mul (int_truediv date_idx (total_items - 1))
                                              (float_of_int (days_range - 1)));
                   variation_divisor = max 10 (days_range div 20);
                   prime_variation = (if 0 < variation_divisor
                                      then (date_idx * 17) mod variation_divisor else 0)
               in py_int (float_add linear_days (float_of_int prime_variation))
             else days_range div 2)
      in max 1 (min days_ago days_range))"

text \<open>
  The float sum \<^verbatim>\<open>linear_days + prime_variation\<close> of lines 178-181 and the exact value of the
  same expression.
\<close>

definition days_ago_float :: "int \<Rightarrow> int \<Rightarrow> int \<Rightarrow> real" where
  "days_ago_float D n i =
     float_add (float_add (float_of_int 1)
                  (float_mul (int_truediv i (n - 1)) (float_of_int (D - 1))))
               (float_of_int ((i * 17) mod max 10 (D div 20)))"

definition days_ago_exact :: "int \<Rightarrow> int \<Rightarrow> int \<Rightarrow> real" where
  "days_ago_exact D n i =
     1 + of_int i / of_int (n - 1) * of_int (D - 1) + of_int ((i * 17) mod max 10 (D div 20))"

text \<open>Lines 176-198: the creation date of a record without a reference creation date.\<close>

definition created_from_position :: "datetime \<Rightarrow> datetime \<Rightarrow> int \<Rightarrow> int \<Rightarrow> int \<Rightarrow> datetime" where
  "created_from_position now now_c days_range total_items date_idx =
     (let days_ago = position_days_ago days_range total_items date_idx;
          created_date = now_c - td_days days_ago;
          created_date = created_time_of_day date_idx created_date
      in if now < created_date then created_time_of_day date_idx (now - td_days 1)
         else created_date)"

text \<open>
  The variables of the modification pass. \<^verbatim>\<open>mod_hours\<close> and \<^verbatim>\<open>mod_seconds\<close> are reassigned
  in some branches and read again at line 260, so they are carried along. A record that is
  all non-negative keeps \<^verbatim>\<open>replace\<close> on or after the start of the day.
\<close>

record mod_vars =
  mod_date :: datetime
  mod_hours :: int
  mod_minutes :: int
  mod_seconds :: int
  mod_microseconds :: int

definition tod_nonneg :: "mod_vars \<Rightarrow> bool" where
  "tod_nonneg v \<longleftrightarrow>
     0 \<le> mod_hours v \<and> 0 \<le> mod_minutes v \<and> 0 \<le> mod_seconds v \<and> 0 \<le> mod_microseconds v"

definition replace_mod :: "mod_vars \<Rightarrow> datetime \<Rightarrow> datetime" where
  "replace_mod v d = replace_time d (mod_hours v) (mod_minutes v) (mod_seconds v) (mod_microseconds v)"

text \<open>
  Lines 200-216: the first modification date, \<open>days_variation_first\<close> (lines 200-207) days
  after the creation date.
\<close>

definition days_variation_first :: "int \<Rightarrow> int \<Rightarrow> int" where
  "days_variation_first total_items date_idx =
     (let days_variation =
            (if 1 < total_items then
               let linear_days = float_add (float_of_int 1)
                                   (float_mul (int_truediv date_idx (total_items - 1))
                                              (float_of_int 179));
                   prime_variation = (date_idx * 13) mod 7
               in py_int (float_add linear_days (float_of_int prime_variation))
             else 30)
      in max 1 (min days_variation 180))"

definition modified_first :: "int \<Rightarrow> int \<Rightarrow> datetime \<Rightarrow> mod_vars" where
  "modified_first total_items date_idx created_date =
     (let days_variation = days_variation_first total_items date_idx;
          modified = created_date + td_days days_variation;
          v = \<lparr>mod_date = modified,
               mod_hours = min 17 (max 8 (8 + ((dt_hour created_date + date_idx * 7) mod 10))),
               mod_minutes = (dt_minute created_date + (date_idx * 11)) mod 60,
               mod_seconds = (dt_second created_date + (date_idx * 19)) mod 60,
               mod_microseconds = (date_idx * 29) mod 1000000\<rparr>
      in v\<lparr>mod_date := replace_mod v modified\<rparr>)"

text \<open>
  Lines 221-242: the branch \<^verbatim>\<open>max_days > 0\<close>, with \<open>days_variation_within\<close> for lines
  221-228.
\<close>

definition days_variation_within :: "int \<Rightarrow> int \<Rightarrow> int \<Rightarrow> int" where
  "days_variation_within total_items date_idx max_days =
     (let days_variation =
            (if 1 < total_items then
               let linear_days = float_add (float_of_int 1)
                                   (float_mul (int_truediv date_idx (total_items - 1))
                                              (float_of_int (max_days - 1)));
                   variation_divisor = max 1 (min 7 (max_days div 10));
                   prime_variation = (if 0 < variation_divisor
                                      then (date_idx * 13) mod variation_divisor else 0)
               in py_int (float_add linear_days (float_of_int prime_variation))
             else max 1 (max_days div 2))
      in max 1 (min days_variation max_days))"

definition modified_within :: "datetime \<Rightarrow> int \<Rightarrow> int \<Rightarrow> datetime \<Rightarrow> int \<Rightarrow> mod_vars \<Rightarrow> mod_vars" where
  "modified_within now total_items date_idx created_date max_days v =
     (let days_variation = days_variation_within total_items date_idx max_days;
          modified = created_date + td_days days_variation;
          v = v\<lparr>mod_hours := min 17 (max 8 (8 + ((dt_hour created_date + date_idx * 7) mod 10))),
                mod_minutes := (dt_minute created_date + (date_idx * 11)) mod 60,
                mod_seconds := (dt_second created_date + (date_idx * 19)) mod 60,
                mod_microseconds := (date_idx * 29) mod 1000000\<rparr>
      in
        if modified \<le> now then v\<lparr>mod_date := replace_mod v modified\<rparr>
        else
          let v = v\<lparr>mod_hours := min (dt_hour created_date + 1) 17\<rparr>;
              v = v\<lparr>mod_date := replace_mod v modified\<rparr>
          in if now < mod_date v
             then v\<lparr>mod_date := replace_second now (mod_seconds v) (mod_microseconds v)\<rparr>
             else v)"

text \<open>Lines 244-256: the branch \<^verbatim>\<open>max_days <= 0\<close>.\<close>

definition modified_same_day :: "datetime \<Rightarrow> int \<Rightarrow> datetime \<Rightarrow> mod_vars \<Rightarrow> mod_vars" where
  "modified_same_day now date_idx created_date v =
     (if date_of created_date = date_of now then
        let hours_offset = 1 + (date_idx mod 2);
            v = v\<lparr>mod_seconds := (date_idx * 19) mod 60,
                  mod_microseconds := (date_idx * 29) mod 1000000\<rparr>;
            modified = created_date + (td_hours hours_offset + td_seconds (mod_seconds v));
            modified = replace_microsecond modified (mod_microseconds v)
        in
          if now < modified then
            let modified = created_date + td_seconds (mod_seconds v);
                modified = replace_microsecond modified (mod_microseconds v)
            in if now < modified then v\<lparr>mod_date := created_date\<rparr>
               else v\<lparr>mod_date := modified\<rparr>
          else v\<lparr>mod_date := modified\<rparr>
      else v\<lparr>mod_date := created_date\<rparr>)"

text \<open>Lines 200-256: the modification date derived from the creation date.\<close>

definition modified_from_created :: "datetime \<Rightarrow> int \<Rightarrow> int \<Rightarrow> datetime \<Rightarrow> mod_vars" where
  "modified_from_created now total_items date_idx created_date =
     (let v = modified_first total_items date_idx created_date in
      if now < mod_date v then
        let max_days = days_of (now - created_date) in
        if 0 < max_days then modified_within now total_items date_idx created_date max_days v
        else modified_same_day now date_idx created_date v
      else v)"

text \<open>Lines 258-260.\<close>

definition enforce_order :: "datetime \<Rightarrow> mod_vars \<Rightarrow> mod_vars" where
  "enforce_order created_date v =
     (if mod_date v < created_date
      then v\<lparr>mod_date := replace_mod v (created_date + td_days 1)\<rparr>
      else v)"

text \<open>Lines 262-279.\<close>

definition reclamp_created :: "datetime \<Rightarrow> int \<Rightarrow> datetime \<Rightarrow> mod_vars \<Rightarrow> datetime \<times> mod_vars" where
  "reclamp_created now date_idx created_date0 v0 =
     (if now < created_date0 then
        let created_date = created_time_of_day date_idx (now - td_days 1);
            v = (if mod_date v0 \<le> created_date then
                   let v = v0\<lparr>mod_hours := min 17 (max 8 (8 + ((dt_hour created_date + date_idx * 7) mod 10))),
                              mod_minutes := (dt_minute created_date + (date_idx * 11)) mod 60,
                              mod_seconds := (dt_second created_date + (date_idx * 19)) mod 60,
                              mod_microseconds := (date_idx * 29) mod 1000000\<rparr>
                   in v\<lparr>mod_date := replace_mod v (created_date + td_days 1)\<rparr>
                 else v0);
            v = (if now < mod_date v then v\<lparr>mod_date := now\<rparr> else v)
        in (created_date, v)
      else (created_date0, v0))"

text \<open>Lines 281-285.\<close>

definition clamp_modified :: "datetime \<Rightarrow> datetime \<Rightarrow> datetime \<Rightarrow> datetime" where
  "clamp_modified now created_date modified =
     (if now < modified then
        let max_modified = min now (created_date + td_days 1) in
        if max_modified < created_date then created_date else max_modified
      else modified)"

text \<open>
  Lines 123-285: the pair \<^verbatim>\<open>(created_date, mod_date)\<close> written by the \<^verbatim>\<open>UPDATE\<close>. The
  value assigned to \<^verbatim>\<open>mod_date\<close> from the reference modification date (lines 169-174)
  is bound first, as in the source, and line 209 assigns the variable anew.
\<close>

definition compute_dates ::
  "datetime \<Rightarrow> datetime \<Rightarrow> datetime \<Rightarrow> datetime \<Rightarrow> int \<Rightarrow> int \<Rightarrow> int
     \<Rightarrow> datetime option \<Rightarrow> datetime option \<Rightarrow> datetime \<times> datetime" where
  "compute_dates now now_a now_b now_c days_range total_items date_idx created_ref modified_ref =
     (let created_date =
            (case created_ref of
               None \<Rightarrow> None
             | Some parsed_date \<Rightarrow>
                 Some (created_from_reference now days_range total_items date_idx parsed_date));
          modified_date =
            (case modified_ref of
               None \<Rightarrow> None
             | Some parsed_modified \<Rightarrow>
                 Some (if now_a < parsed_modified then now_b else parsed_modified));
          created_date =
            (case created_date of
               None \<Rightarrow> created_from_position now now_c days_range total_items date_idx
             | Some c \<Rightarrow> c);
          v = modified_from_created now total_items date_idx created_date;
          v = enforce_order created_date v;
          (created_date, v) = reclamp_created now date_idx created_date v;
          modified_date = clamp_modified now created_date (mod_date v)
      in (created_date, modified_date))"

section \<open>json.loads\<close>

text \<open>
  The standard library's decoder as \<^verbatim>\<open>json.loads(s)\<close> runs it for a \<^verbatim>\<open>str\<close> (CPython 3.11:
  the C scanner and \<^verbatim>\<open>scanstring\<close>, \<^verbatim>\<open>strict=True\<close>, no hooks), on the remaining text instead
  of an index. The text is a string of code points below 256. A \<^verbatim>\<open>JSONDecodeError\<close> is
  represented by its message; its position is not kept. Two other exceptions can leave
  \<^verbatim>\<open>json.loads\<close>: \<^verbatim>\<open>RecursionError\<close>, when the containers are nested deeper than the interpreter
  allows at the point of the call (the argument \<open>recursion_limit\<close>: the number of nested
  containers that can still be entered), and \<^verbatim>\<open>ValueError\<close>, when an integer literal has more
  than 4300 digits.
\<close>

datatype json_error =
    Expecting_value
  | Expecting_comma_delimiter
  | Expecting_colon_delimiter
  | Expecting_property_name
  | Unterminated_string
  | Invalid_control_character
  | Invalid_escape
  | Invalid_unicode_escape
  | Extra_data

text \<open>
  \<open>Fuel_exhausted\<close> is not an outcome of Python: it is what the functions below return when
  their first argument, which bounds their recursion, is used up. \<open>loads\<close> never returns it.
\<close>

datatype loads_exception =
    JSONDecodeError json_error
  | RecursionError
  | ValueError
  | Fuel_exhausted

definition DQUOTE :: char where "DQUOTE = CHR 0x22"
definition BACKSLASH :: char where "BACKSLASH = CHR 0x5C"

text \<open>\<^verbatim>\<open>IS_WHITESPACE\<close>: space, tab, line feed, carriage return.\<close>

definition json_ws :: "char \<Rightarrow> bool" where
  "json_ws c \<longleftrightarrow> c = CHR '' '' \<or> c = CHR 0x09 \<or> c = CHR 0x0A \<or> c = CHR 0x0D"

definition skip_ws :: "string \<Rightarrow> string" where
  "skip_ws s = dropWhile json_ws s"

definition hex_digit :: "char \<Rightarrow> nat option" where
  "hex_digit c = (let n = (of_char c :: nat) in
     if 48 \<le> n \<and> n \<le> 57 then Some (n - 48)
     else if 65 \<le> n \<and> n \<le> 70 then Some (n - 55)
     else if 97 \<le> n \<and> n \<le> 102 then Some (n - 87)
     else None)"

text \<open>Four hexadecimal digits (\<open>None\<close>: \<^verbatim>\<open>Invalid \uXXXX escape\<close>).\<close>

definition hex4 :: "string \<Rightarrow> nat option" where
  "hex4 s =
     (case s of
        [a, b, c, d] \<Rightarrow>
          (case (hex_digit a, hex_digit b, hex_digit c, hex_digit d) of
             (Some x, Some y, Some z, Some w) \<Rightarrow> Some (((x * 16 + y) * 16 + z) * 16 + w)
           | _ \<Rightarrow> None)
      | _ \<Rightarrow> None)"

definition is_high_surrogate :: "nat \<Rightarrow> bool" where
  "is_high_surrogate c \<longleftrightarrow> 0xD800 \<le> c \<and> c \<le> 0xDBFF"

definition is_low_surrogate :: "nat \<Rightarrow> bool" where
  "is_low_surrogate c \<longleftrightarrow> 0xDC00 \<le> c \<and> c \<le> 0xDFFF"

definition join_surrogates :: "nat \<Rightarrow> nat \<Rightarrow> nat" where
  "join_surrogates hi lo = 0x10000 + ((hi - 0xD800) * 0x400 + (lo - 0xDC00))"

text \<open>The one-character escapes.\<close>

definition backslash_escape :: "char \<Rightarrow> char option" where
  "backslash_escape c =
     (if c = DQUOTE then Some DQUOTE
      else if c = BACKSLASH then Some BACKSLASH
      else if c = CHR ''/'' then Some (CHR ''/'')
      else if c = CHR ''b'' then Some (CHR 0x08)
      else if c = CHR ''f'' then Some (CHR 0x0C)
      else if c = CHR ''n'' then Some (CHR 0x0A)
      else if c = CHR ''r'' then Some (CHR 0x0D)
      else if c = CHR ''t'' then Some (CHR 0x09)
      else None)"

text \<open>
  \<^verbatim>\<open>scanstring\<close>, from the character after the opening quote; the result is the decoded
  string and the text after the closing quote. After \<^verbatim>\<open>\u\<close> the four digits must be followed
  by at least one more character. A high surrogate is joined with a low surrogate that
  follows as \<^verbatim>\<open>\uXXXX\<close> when at least seven characters follow its digits; a second escape
  that has a digit that is not hexadecimal is an error then, one that is no low surrogate is
  read again on its own.
\<close>

fun scanstring :: "nat list \<Rightarrow> string \<Rightarrow> json_error + nat list \<times> string" where
  "scanstring acc [] = Inl Unterminated_string"
| "scanstring acc (c # rest) =
     (if c = DQUOTE then Inr (rev acc, rest)
      else if c = BACKSLASH then
        (case rest of
           [] \<Rightarrow> Inl Unterminated_string
         | esc # rest' \<Rightarrow>
             if esc = CHR ''u'' then
               (if length rest' \<le> 4 then Inl Invalid_unicode_escape
                else
                  case hex4 (take 4 rest') of
                    None \<Rightarrow> Inl Invalid_unicode_escape
                  | Some uni \<Rightarrow>
                      if is_high_surrogate uni \<and> 6 < length (drop 4 rest')
                         \<and> take 2 (drop 4 rest') = [BACKSLASH, CHR ''u'']
                      then
                        (case hex4 (take 4 (drop 6 rest')) of
                           None \<Rightarrow> Inl Invalid_unicode_escape
                         | Some uni2 \<Rightarrow>
                             if is_low_surrogate uni2
                             then scanstring (join_surrogates uni uni2 # acc) (drop 10 rest')
                             else scanstring (uni # acc) (drop 4 rest'))
                      else scanstring (uni # acc) (drop 4 rest'))
             else
               (case backslash_escape esc of
                  None \<Rightarrow> Inl Invalid_escape
                | Some ch \<Rightarrow> scanstring (of_char ch # acc) rest'))
      else if (of_char c :: nat) < 32 then Inl Invalid_control_character
      else scanstring (of_char c # acc) rest)"

text \<open>
  \<^verbatim>\<open>_match_number_unicode\<close>: an optional minus sign, then \<^verbatim>\<open>0\<close> or a digit from 1 to 9 with
  all digits that follow; a fraction if a dot and a digit follow; an exponent if \<^verbatim>\<open>e\<close> or
  \<^verbatim>\<open>E\<close>, an optional sign and a digit follow. The result is the three parts (empty when
  absent) and the rest.
\<close>

definition is_digit :: "char \<Rightarrow> bool" where
  "is_digit c \<longleftrightarrow> (let n = (of_char c :: nat) in 48 \<le> n \<and> n \<le> 57)"

definition match_integer :: "string \<Rightarrow> (string \<times> string) option" where
  "match_integer s =
     (let (sign, s1) = (case s of c # r \<Rightarrow> if c = CHR ''-'' then ([c], r) else ([], s) | [] \<Rightarrow> ([], s))
      in case s1 of
           [] \<Rightarrow> None
         | d # r \<Rightarrow>
             if d = CHR ''0'' then Some (sign @ [d], r)
             else if is_digit d then Some (sign @ d # takeWhile is_digit r, dropWhile is_digit r)
             else None)"

definition match_frac :: "string \<Rightarrow> string \<times> string" where
  "match_frac s =
     (case s of
        c # d # r \<Rightarrow>
          if c = CHR ''.'' \<and> is_digit d then (c # d # takeWhile is_digit r, dropWhile is_digit r)
          else ([], s)
      | _ \<Rightarrow> ([], s))"

definition match_exp :: "string \<Rightarrow> string \<times> string" where
  "match_exp s =
     (case s of
        e # r \<Rightarrow>
          if e = CHR ''e'' \<or> e = CHR ''E'' then
            (let (sign, r1) = (case r of c # r' \<Rightarrow> if c = CHR ''-'' \<or> c = CHR ''+'' then ([c], r') else ([], r)
                               | [] \<Rightarrow> ([], r))
             in case r1 of
                  d # r2 \<Rightarrow> if is_digit d then (e # sign @ d # takeWhile is_digit r2, dropWhile is_digit r2)
                             else ([], s)
                | [] \<Rightarrow> ([], s))
          else ([], s)
      | [] \<Rightarrow> ([], s))"

text \<open>
  \<^verbatim>\<open>PyLong_FromString\<close> on a matched integer part: the value, or \<^verbatim>\<open>ValueError\<close> beyond
  4300 digits.
\<close>

definition digits_value :: "string \<Rightarrow> int" where
  "digits_value ds = foldl (\<lambda>a c. a * 10 + int (of_char c - 48)) 0 ds"

definition int_of_literal :: "string \<Rightarrow> loads_exception + int" where
  "int_of_literal s =
     (let (negative, digits) = (case s of c # r \<Rightarrow> if c = CHR ''-'' then (True, r) else (False, s)
                                | [] \<Rightarrow> (False, s))
      in if 4300 < length digits then Inl ValueError
         else Inr (if negative then - digits_value digits else digits_value digits))"

definition match_number :: "string \<Rightarrow> (loads_exception + 'c json \<times> string) option" where
  "match_number s =
     (case match_integer s of
        None \<Rightarrow> None
      | Some (integer, r1) \<Rightarrow>
          let (frac, r2) = match_frac r1;
              (exp, r3) = match_exp r2
          in if frac = [] \<and> exp = [] then
               (case int_of_literal integer of
                  Inl exc \<Rightarrow> Some (Inl exc)
                | Inr n \<Rightarrow> Some (Inr (JInt n, r3)))
             else Some (Inr (JFloat (integer @ frac @ exp), r3)))"

text \<open>\<^verbatim>\<open>PyDict_SetItem\<close>: a repeated key keeps its first place and takes the last value.\<close>

fun dict_set :: "('k \<times> 'v) list \<Rightarrow> 'k \<Rightarrow> 'v \<Rightarrow> ('k \<times> 'v) list" where
  "dict_set [] k v = [(k, v)]"
| "dict_set ((k', v') # d) k v = (if k' = k then (k, v) # d else (k', v') # dict_set d k v)"

text \<open>
  \<^verbatim>\<open>scan_once_unicode\<close>, \<^verbatim>\<open>_parse_array_unicode\<close> and \<^verbatim>\<open>_parse_object_unicode\<close> (their
  \<^verbatim>\<open>while (1)\<close> loops from the point where a value, respectively the opening quote of a key,
  has just been passed). Entering a container takes one level of \<open>recursion_limit\<close>.
\<close>

fun scan_once :: "nat \<Rightarrow> nat \<Rightarrow> string \<Rightarrow> loads_exception + nat json \<times> string"
  and array_loop :: "nat \<Rightarrow> nat \<Rightarrow> nat json list \<Rightarrow> string \<Rightarrow> loads_exception + nat json \<times> string"
  and object_loop :: "nat \<Rightarrow> nat \<Rightarrow> (nat list \<times> nat json) list \<Rightarrow> string
                        \<Rightarrow> loads_exception + nat json \<times> string"
where
  "scan_once 0 recursion_limit s = Inl Fuel_exhausted"
| "scan_once (Suc n) recursion_limit s =
     (case s of
        [] \<Rightarrow> Inl (JSONDecodeError Expecting_value)
      | c # rest \<Rightarrow>
          if c = DQUOTE then
            (case scanstring [] rest of
               Inl e \<Rightarrow> Inl (JSONDecodeError e)
             | Inr (str, rest') \<Rightarrow> Inr (JString str, rest'))
          else if c = CHR ''{'' then
            (if recursion_limit = 0 then Inl RecursionError
             else
               case skip_ws rest of
                 [] \<Rightarrow> Inl (JSONDecodeError Expecting_property_name)
               | c1 # rest1 \<Rightarrow>
                   if c1 = CHR ''}'' then Inr (JObject [], rest1)
                   else if c1 = DQUOTE then object_loop n (recursion_limit - 1) [] rest1
                   else Inl (JSONDecodeError Expecting_property_name))
          else if c = CHR ''['' then
            (if recursion_limit = 0 then Inl RecursionError
             else
               case skip_ws rest of
                 [] \<Rightarrow> array_loop n (recursion_limit - 1) [] []
               | c1 # rest1 \<Rightarrow>
                   if c1 = CHR '']'' then Inr (JArray [], rest1)
                   else array_loop n (recursion_limit - 1) [] (c1 # rest1))
          else if take 4 s = ''null'' then Inr (JNull, drop 4 s)
          else if take 4 s = ''true'' then Inr (JBool True, drop 4 s)
          else if take 5 s = ''false'' then Inr (JBool False, drop 5 s)
          else if take 3 s = ''NaN'' then Inr (JFloat ''NaN'', drop 3 s)
          else if take 8 s = ''Infinity'' then Inr (JFloat ''Infinity'', drop 8 s)
          else if take 9 s = ''-Infinity'' then Inr (JFloat ''-Infinity'', drop 9 s)
          else
            (case match_number s of
               Some r \<Rightarrow> r
             | None \<Rightarrow> Inl (JSONDecodeError Expecting_value)))"
| "array_loop 0 recursion_limit values s = Inl Fuel_exhausted"
| "array_loop (Suc n) recursion_limit values s =
     (case scan_once n recursion_limit s of
        Inl e \<Rightarrow> Inl e
      | Inr (val, rest) \<Rightarrow>
          (case skip_ws rest of
             [] \<Rightarrow> Inl (JSONDecodeError Expecting_comma_delimiter)
           | c # rest1 \<Rightarrow>
               if c = CHR '']'' then Inr (JArray (values @ [val]), rest1)
               else if c \<noteq> CHR '','' then Inl (JSONDecodeError Expecting_comma_delimiter)
               else array_loop n recursion_limit (values @ [val]) (skip_ws rest1)))"
| "object_loop 0 recursion_limit pairs s = Inl Fuel_exhausted"
| "object_loop (Suc n) recursion_limit pairs s =
     (case scanstring [] s of
        Inl e \<Rightarrow> Inl (JSONDecodeError e)
      | Inr (key, rest) \<Rightarrow>
          (case skip_ws rest of
             [] \<Rightarrow> Inl (JSONDecodeError Expecting_colon_delimiter)
           | c # rest1 \<Rightarrow>
               if c \<noteq> CHR '':'' then Inl (JSONDecodeError Expecting_colon_delimiter)
               else
                 (case scan_once n recursion_limit (skip_ws rest1) of
                    Inl e \<Rightarrow> Inl e
                  | Inr (val, rest2) \<Rightarrow>
                      (case skip_ws rest2 of
                         [] \<Rightarrow> Inl (JSONDecodeError Expecting_comma_delimiter)
                       | c2 # rest3 \<Rightarrow>
                           if c2 = CHR ''}'' then Inr (JObject (dict_set pairs key val), rest3)
                           else if c2 \<noteq> CHR '','' then Inl (JSONDecodeError Expecting_comma_delimiter)
                           else
                             (case skip_ws rest3 of
                                [] \<Rightarrow> Inl (JSONDecodeError Expecting_property_name)
                              | c3 # rest4 \<Rightarrow>
                                  if c3 = DQUOTE then object_loop n recursion_limit (dict_set pairs key val) rest4
                                  else Inl (JSONDecodeError Expecting_property_name))))))"

text \<open>\<^verbatim>\<open>JSONDecoder.decode\<close>: leading whitespace, one value, trailing whitespace, end.\<close>

definition loads :: "nat \<Rightarrow> string \<Rightarrow> loads_exception + nat json" where
  "loads recursion_limit s =
     (case scan_once (2 * length s + 2) recursion_limit (skip_ws s) of
        Inl e \<Rightarrow> Inl e
      | Inr (obj, rest) \<Rightarrow> if skip_ws rest = [] then Inr obj else Inl (JSONDecodeError Extra_data))"

text \<open>The code points of a Latin-1 text.\<close>

definition code_points :: "string \<Rightarrow> nat list" where
  "code_points s = map of_char s"

section \<open>api\_utils.parse\_anthropic\_response\<close>

text \<open>
  The function from \<^verbatim>\<open>text_content\<close> on (line 418); reading \<^verbatim>\<open>content[0]["text"]\<close> from the
  response dictionary is left out. Every failure leaves the function as a \<^verbatim>\<open>RuntimeError\<close>;
  the kinds are kept apart: no array start (line 441, with the snippet), no array end (line
  512, with \<^verbatim>\<open>json_start\<close> and \<^verbatim>\<open>json_end\<close>), a \<^verbatim>\<open>JSONDecodeError\<close> (line 542, with the
  snippet of \<^verbatim>\<open>json_str\<close>), and any other exception of \<^verbatim>\<open>json.loads\<close> (line 546).
\<close>

datatype extraction_error =
    No_json_array string
  | No_valid_ending int int
  | Json_parse_failed json_error string
  | Error_parsing loads_exception

definition BACKTICK :: char where "BACKTICK = CHR 0x60"

definition FENCE :: string where "FENCE = [BACKTICK, BACKTICK, BACKTICK]"

text \<open>\<^verbatim>\<open>text.find(sub)\<close>: the lowest index where \<open>sub\<close> starts, or -1.\<close>

fun find_from :: "string \<Rightarrow> string \<Rightarrow> nat \<Rightarrow> int" where
  "find_from sub [] i = (if sub = [] then int i else -1)"
| "find_from sub (c # s) i =
     (if take (length sub) (c # s) = sub then int i else find_from sub s (Suc i))"

definition py_find :: "string \<Rightarrow> string \<Rightarrow> int" where
  "py_find text sub = find_from sub text 0"

text \<open>\<^verbatim>\<open>text.rfind(ch)\<close> for a single character: the highest index, or -1.\<close>

fun rfind_from :: "char \<Rightarrow> string \<Rightarrow> nat \<Rightarrow> int \<Rightarrow> int" where
  "rfind_from ch [] i found = found"
| "rfind_from ch (c # s) i found = rfind_from ch s (Suc i) (if c = ch then int i else found)"

definition py_rfind :: "string \<Rightarrow> char \<Rightarrow> int" where
  "py_rfind text ch = rfind_from ch text 0 (-1)"

text \<open>\<^verbatim>\<open>text[a:b]\<close> for indices that are not negative.\<close>

definition slice :: "string \<Rightarrow> int \<Rightarrow> int \<Rightarrow> string" where
  "slice text a b = drop (nat a) (take (nat b) text)"

text \<open>\<^verbatim>\<open>s[:n] + "..." if len(s) > n else s\<close>.\<close>

definition snippet :: "nat \<Rightarrow> string \<Rightarrow> string" where
  "snippet n s = (if n < length s then take n s @ ''...'' else s)"

text \<open>
  \<^verbatim>\<open>re.search(r"```(?:json)?\s*(.*?)\s*```", text, re.DOTALL)\<close>, group 1. The search
  succeeds exactly when a fence follows the first fence (an opening that has no closing
  fence after it leaves none for any later opening either, and the letters of \<^verbatim>\<open>json\<close>
  cannot start a fence). The greedy \<^verbatim>\<open>\s*\<close> takes all whitespace after the opening, the lazy
  group runs to the first point from where only whitespace precedes the next fence.
\<close>

definition markdown_match :: "string \<Rightarrow> string option" where
  "markdown_match text =
     (let p = py_find text FENCE in
      if p = -1 then None
      else
        let rest = drop (nat p + 3) text;
            rest = (if take 4 rest = ''json'' then drop 4 rest else rest);
            rest = dropWhile is_space rest;
            q = py_find rest FENCE
        in if q = -1 then None
           else Some (rev (dropWhile is_space (rev (take (nat q) rest)))))"

text \<open>Lines 430-435: the preamble phrases followed by a bracket.\<close>

fun probe_prefixes :: "string \<Rightarrow> string list \<Rightarrow> int" where
  "probe_prefixes text_content [] = -1"
| "probe_prefixes text_content (prefix # prefixes) =
     (let idx = py_find text_content (prefix @ ''['') in
      if idx \<noteq> -1 then idx + int (length prefix)
      else probe_prefixes text_content prefixes)"

definition preamble_phrases :: "string list" where
  "preamble_phrases = [''Here'' @ [CHR 0x27] @ ''s'', ''Here is'', ''JSON:'', ''Array:'']"

text \<open>Lines 418-435: the (possibly narrowed) text and \<^verbatim>\<open>json_start\<close>.\<close>

definition locate_start :: "string \<Rightarrow> string \<times> int" where
  "locate_start text_content0 =
     (let (text_content, json_start) =
            (case markdown_match text_content0 of
               Some group1 \<Rightarrow>
                 let extracted_content = strip group1;
                     json_start_in_extracted = py_find extracted_content ''[''
                 in if json_start_in_extracted \<noteq> -1
                    then (drop (nat json_start_in_extracted) extracted_content, 0)
                    else (text_content0, py_find text_content0 ''['')
             | None \<Rightarrow> (text_content0, py_find text_content0 ''[''))
      in if json_start = -1 then (text_content, probe_prefixes text_content preamble_phrases)
         else (text_content, json_start))"

text \<open>
  Lines 443-470: the first index after a \<^verbatim>\<open>]\<close> that brings the bracket depth back to zero,
  outside double-quoted strings; -1 when the text ends first.
\<close>

fun first_balanced_end :: "string \<Rightarrow> nat \<Rightarrow> int \<Rightarrow> bool \<Rightarrow> bool \<Rightarrow> int" where
  "first_balanced_end [] i bracket_count in_string escape_next = -1"
| "first_balanced_end (char # rest) i bracket_count in_string escape_next =
     (if escape_next then first_balanced_end rest (Suc i) bracket_count in_string False
      else if char = BACKSLASH then first_balanced_end rest (Suc i) bracket_count in_string True
      else if char = DQUOTE then first_balanced_end rest (Suc i) bracket_count (\<not> in_string) escape_next
      else if \<not> in_string then
        (if char = CHR ''['' then first_balanced_end rest (Suc i) (bracket_count + 1) in_string escape_next
         else if char = CHR '']'' then
           (if bracket_count - 1 = 0 then int i + 1
            else first_balanced_end rest (Suc i) (bracket_count - 1) in_string escape_next)
         else first_balanced_end rest (Suc i) bracket_count in_string escape_next)
      else first_balanced_end rest (Suc i) bracket_count in_string escape_next)"

text \<open>Lines 473-499: the same scan without the \<^verbatim>\<open>break\<close>, collecting \<^verbatim>\<open>potential_ends\<close>.\<close>

fun potential_ends :: "string \<Rightarrow> nat \<Rightarrow> int \<Rightarrow> bool \<Rightarrow> bool \<Rightarrow> int list" where
  "potential_ends [] i bracket_count in_string escape_next = []"
| "potential_ends (char # rest) i bracket_count in_string escape_next =
     (if escape_next then potential_ends rest (Suc i) bracket_count in_string False
      else if char = BACKSLASH then potential_ends rest (Suc i) bracket_count in_string True
      else if char = DQUOTE then potential_ends rest (Suc i) bracket_count (\<not> in_string) escape_next
      else if \<not> in_string then
        (if char = CHR ''['' then potential_ends rest (Suc i) (bracket_count + 1) in_string escape_next
         else if char = CHR '']'' then
           (if bracket_count - 1 = 0
            then (int i + 1) # potential_ends rest (Suc i) (bracket_count - 1) in_string escape_next
            else potential_ends rest (Suc i) (bracket_count - 1) in_string escape_next)
         else potential_ends rest (Suc i) bracket_count in_string escape_next)
      else potential_ends rest (Suc i) bracket_count in_string escape_next)"

text \<open>Lines 443-505: \<^verbatim>\<open>json_end\<close>.\<close>

definition locate_end :: "string \<Rightarrow> int \<Rightarrow> int" where
  "locate_end text_content json_start =
     (let json_end = first_balanced_end (drop (nat json_start) text_content) (nat json_start) 0 False False
      in if json_end = -1 then
           let ends = potential_ends (drop (nat json_start) text_content) (nat json_start) 0 False False
           in if ends \<noteq> [] then last ends
              else
                let last_bracket = py_rfind text_content (CHR '']'')
                in if json_start < last_bracket then last_bracket + 1 else -1
         else json_end)"

text \<open>Lines 516-519: \<^verbatim>\<open>strip\<close> and the three substitutions.\<close>

definition is_control :: "char \<Rightarrow> bool" where
  "is_control c = (let n = (of_char c :: nat) in
     n \<le> 8 \<or> n = 11 \<or> n = 12 \<or> (14 \<le> n \<and> n \<le> 31) \<or> n = 127)"

definition replace_control :: "string \<Rightarrow> string" where
  "replace_control s = map (\<lambda>c. if is_control c then CHR '' '' else c) s"

text \<open>\<^verbatim>\<open>re.sub(r"\s+", " ", s)\<close>; the flag tells that the previous character was whitespace.\<close>

fun collapse_ws :: "bool \<Rightarrow> string \<Rightarrow> string" where
  "collapse_ws in_run [] = []"
| "collapse_ws in_run (c # s) =
     (if is_space c then (if in_run then collapse_ws True s else CHR '' '' # collapse_ws True s)
      else c # collapse_ws False s)"

text \<open>
  \<^verbatim>\<open>re.sub(r",(\s*[}\]])", r"\1", s)\<close>: a comma followed by whitespace and a closing bracket
  is dropped; the search goes on after the bracket.
\<close>

function drop_trailing_commas :: "string \<Rightarrow> string" where
  "drop_trailing_commas [] = []"
| "drop_trailing_commas (c # s) =
     (if c = CHR '','' then
        (case dropWhile is_space s of
           b # rest \<Rightarrow>
             if b = CHR ''}'' \<or> b = CHR '']''
             then takeWhile is_space s @ b # drop_trailing_commas rest
             else c # drop_trailing_commas s
         | [] \<Rightarrow> c # drop_trailing_commas s)
      else c # drop_trailing_commas s)"
  by pat_completeness auto
termination
proof (relation "measure length")
  show "wf (measure length)" by simp
next
  fix c :: char and s b rest
  assume "dropWhile is_space s = b # rest"
  then have "length (b # rest) \<le> length s"
    by (metis length_dropWhile_le)
  then show "(rest, c # s) \<in> measure length" by simp
qed simp_all

definition sanitize :: "string \<Rightarrow> string" where
  "sanitize json_str = drop_trailing_commas (collapse_ws False (replace_control (strip json_str)))"

text \<open>
  Lines 521-546: decoding, with the one retry on a delimiter error. The retry is inside a
  \<^verbatim>\<open>try\<close> that passes over a \<^verbatim>\<open>JSONDecodeError\<close> only; the first error is raised again then.
\<close>

definition truncated_json :: "string \<Rightarrow> string" where
  "truncated_json json_str =
     (let last_complete_brace = py_rfind json_str (CHR ''}'')
      in take (nat last_complete_brace + 1) json_str @ '']'')"

definition parse_json_str :: "nat \<Rightarrow> string \<Rightarrow> extraction_error + nat json" where
  "parse_json_str recursion_limit json_str =
     (case loads recursion_limit json_str of
        Inr records \<Rightarrow> Inr records
      | Inl (JSONDecodeError e) \<Rightarrow>
          if e = Expecting_comma_delimiter \<or> e = Expecting_colon_delimiter then
            let last_complete_brace = py_rfind json_str (CHR ''}'') in
            if 0 < last_complete_brace then
              (case loads recursion_limit (truncated_json json_str) of
                 Inr records \<Rightarrow> Inr records
               | Inl (JSONDecodeError _) \<Rightarrow> Inl (Json_parse_failed e (snippet 300 json_str))
               | Inl exc \<Rightarrow> Inl (Error_parsing exc))
            else Inl (Json_parse_failed e (snippet 300 json_str))
          else Inl (Json_parse_failed e (snippet 300 json_str))
      | Inl exc \<Rightarrow> Inl (Error_parsing exc))"

text \<open>Lines 418-519: the sanitized \<^verbatim>\<open>json_str\<close>, or the failure to find it.\<close>

definition extract_json_str :: "string \<Rightarrow> extraction_error + string" where
  "extract_json_str text_content0 =
     (let (text_content, json_start) = locate_start text_content0 in
      if json_start = -1 then Inl (No_json_array (snippet 500 text_content))
      else
        let json_end = locate_end text_content json_start in
        if json_end = -1 \<or> json_end \<le> json_start then Inl (No_valid_ending json_start json_end)
        else Inr (sanitize (slice text_content json_start json_end)))"

definition parse_anthropic_response :: "nat \<Rightarrow> string \<Rightarrow> extraction_error + nat json" where
  "parse_anthropic_response recursion_limit text_content =
     (case extract_json_str text_content of
        Inl err \<Rightarrow> Inl err
      | Inr json_str \<Rightarrow> parse_json_str recursion_limit json_str)"

section \<open>Properties of skip\_weekend\<close>

lemma weekday_range: "0 \<le> weekday t \<and> weekday t < 7"
  by (simp add: weekday_def)

lemma date_of_add_days: "date_of (t + td_days n) = date_of t + n"
  by (simp add: date_of_def td_days_def DAY_def)

lemma weekday_add_days: "weekday (t + td_days n) = (weekday t + n) mod 7"
  by (simp add: weekday_def date_of_add_days mod_simps add.commute add.left_commute)

lemma skip_weekend_weekday:
  "weekday (skip_weekend t) \<noteq> 5 \<and> weekday (skip_weekend t) \<noteq> 6"
  by (simp add: skip_weekend_def Let_def weekday_add_days)

lemma skip_weekend_valid:
  assumes "valid_datetime t"
  shows "valid_datetime (skip_weekend t)"
proof -
  have r: "0 \<le> t" "t < 3652059 * DAY"
    using assms by (simp_all add: valid_datetime_def)
  have d: "date_of t \<le> 3652058"
    using r by (simp add: date_of_def DAY_def)
  have sat: "weekday t = 5 \<Longrightarrow> date_of t \<le> 3652052"
    using d unfolding weekday_def by presburger
  have sun: "weekday t = 6 \<Longrightarrow> date_of t \<le> 3652053"
    using d unfolding weekday_def by presburger
  have up: "\<And>n. 0 \<le> n \<Longrightarrow> date_of t + n \<le> 3652058 \<Longrightarrow> valid_datetime (t + td_days n)"
  proof -
    fix n :: int
    assume n: "0 \<le> n" and b: "date_of t + n \<le> 3652058"
    have "date_of (t + td_days n) \<le> 3652058"
      using b by (simp add: date_of_add_days)
    then have "t + td_days n < 3652059 * DAY"
      by (simp add: date_of_def DAY_def)
    moreover have "0 \<le> t + td_days n"
      using r n by (simp add: td_days_def DAY_def)
    ultimately show "valid_datetime (t + td_days n)"
      by (simp add: valid_datetime_def)
  qed
  show ?thesis
    using assms sat sun up [of 2] up [of 1]
    by (auto simp add: skip_weekend_def Let_def)
qed

text \<open>
  C10. For every datetime, \<open>skip_weekend\<close> returns a datetime (the addition stays within
  the calendar range, so no \<^verbatim>\<open>OverflowError\<close> arises) that is neither a Saturday (5) nor
  a Sunday (6); a weekday input (Monday..Friday, 0..4) is returned unchanged; and applying
  the function twice is the same as applying it once.
\<close>

theorem skip_weekend_never_weekend_idempotent:
  "(valid_datetime t \<longrightarrow> valid_datetime (skip_weekend t))
   \<and> weekday (skip_weekend t) \<noteq> 5 \<and> weekday (skip_weekend t) \<noteq> 6
   \<and> (weekday t < 5 \<longrightarrow> skip_weekend t = t)
   \<and> skip_weekend (skip_weekend t) = skip_weekend t"
proof -
  have w: "weekday (skip_weekend t) \<noteq> 5 \<and> weekday (skip_weekend t) \<noteq> 6"
    by (rule skip_weekend_weekday)
  have u: "weekday t < 5 \<longrightarrow> skip_weekend t = t"
    by (simp add: skip_weekend_def Let_def)
  have i: "skip_weekend (skip_weekend t) = skip_weekend t"
    using w by (simp add: skip_weekend_def [of "skip_weekend t"] Let_def)
  show ?thesis
    using w u i skip_weekend_valid by blast
qed

text \<open>
  Saturday 2024-06-01 12:00:00 (ordinal 739038) moves to Monday 2024-06-03 12:00:00, and
  Monday stays.
\<close>

theorem skip_weekend_never_weekend_idempotent_witness:
  "valid_datetime (739037 * DAY + 43200000000)
   \<and> weekday (739037 * DAY + 43200000000) = 5
   \<and> skip_weekend (739037 * DAY + 43200000000) = 739039 * DAY + 43200000000
   \<and> valid_datetime (739039 * DAY + 43200000000)
   \<and> weekday (739039 * DAY + 43200000000) < 5
   \<and> skip_weekend (739039 * DAY + 43200000000) = 739039 * DAY + 43200000000"
  using skip_weekend_never_weekend_idempotent [of "739037 * DAY + 43200000000"]
    skip_weekend_never_weekend_idempotent [of "739039 * DAY + 43200000000"]
  by (simp add: skip_weekend_def weekday_def date_of_def td_days_def valid_datetime_def DAY_def)

section \<open>Properties of the deduplication loop\<close>

lemma first_seen_Cons_Suc:
  "first_seen s (e # es) (Suc i) \<longleftrightarrow> first_seen (insert (name_key e) s) es i"
  by (auto simp add: first_seen_def)

lemma kept_Cons:
  "kept s (e # es) =
     (if name_key e \<noteq> [] \<and> name_key e \<notin> s then [e] else []) @ kept (insert (name_key e) s) es"
proof -
  have upt: "[0..<Suc (length es)] = 0 # map Suc [0..<length es]"
    by (simp add: upt_conv_Cons map_Suc_upt del: upt_Suc)
  have z: "first_seen s (e # es) 0 \<longleftrightarrow> name_key e \<noteq> [] \<and> name_key e \<notin> s"
    by (simp add: first_seen_def)
  show ?thesis
    unfolding kept_def length_Cons upt
    by (simp add: filter_map o_def first_seen_Cons_Suc z)
qed

lemma kept_absorb: "name_key e = [] \<or> name_key e \<in> s \<Longrightarrow> kept (insert (name_key e) s) es = kept s es"
  by (auto simp add: kept_def first_seen_def insert_absorb intro!: arg_cong [where f = "map _"] filter_cong)

lemma dedup_loop_kept:
  "dedup_loop seen unique es = Inr out \<Longrightarrow> out = unique @ kept seen es"
proof (induction es arbitrary: seen unique out)
  case Nil
  then show ?case by (simp add: kept_def)
next
  case (Cons e es)
  show ?case
  proof (cases "entity_name e")
    case (Inl err)
    with Cons.prems show ?thesis by simp
  next
    case (Inr name)
    then have k: "name_key e = lower name" by (simp add: name_key_def)
    have l: "lower name = [] \<longleftrightarrow> name = []" by (simp add: lower_def)
    show ?thesis
    proof (cases "name = [] \<or> lower name \<in> seen")
      case True
      then have "dedup_loop seen unique es = Inr out"
        using Cons.prems Inr by (auto simp add: Let_def split: if_splits)
      then have "out = unique @ kept seen es" by (rule Cons.IH)
      moreover have "kept seen (e # es) = kept seen es"
        using True k l kept_absorb [of e seen es] by (auto simp add: kept_Cons)
      ultimately show ?thesis by simp
    next
      case False
      then have "dedup_loop (insert (lower name) seen) (unique @ [e]) es = Inr out"
        using Cons.prems Inr by (simp add: Let_def)
      then have "out = (unique @ [e]) @ kept (insert (lower name) seen) es" by (rule Cons.IH)
      moreover have "kept seen (e # es) = e # kept (insert (lower name) seen) es"
        using False k l by (simp add: kept_Cons)
      ultimately show ?thesis by simp
    qed
  qed
qed

lemma kept_keys_distinct: "distinct (map name_key (kept s es))"
proof -
  have inj: "inj_on (\<lambda>i. name_key (es ! i)) (set (filter (first_seen s es) [0..<length es]))"
  proof (rule inj_onI)
    fix i j
    assume i: "i \<in> set (filter (first_seen s es) [0..<length es])"
      and j: "j \<in> set (filter (first_seen s es) [0..<length es])"
      and eq: "name_key (es ! i) = name_key (es ! j)"
    have il: "i < length es" and jl: "j < length es" using i j by auto
    have fi: "name_key (es ! i) \<notin> name_key ` set (take i es)"
      and fj: "name_key (es ! j) \<notin> name_key ` set (take j es)"
      using i j by (auto simp add: first_seen_def)
    show "i = j"
    proof (rule ccontr)
      assume ne: "i \<noteq> j"
      show False
      proof (cases "i < j")
        case True
        then have "es ! i \<in> set (take j es)"
          using jl by (auto simp add: in_set_conv_nth intro!: exI [of _ i])
        with fj eq show False by (metis image_eqI)
      next
        case False
        with ne have "j < i" by simp
        then have "es ! j \<in> set (take i es)"
          using il by (auto simp add: in_set_conv_nth intro!: exI [of _ j])
        with fi eq show False by (metis image_eqI)
      qed
    qed
  qed
  have "map name_key (kept s es) = map (\<lambda>i. name_key (es ! i)) (filter (first_seen s es) [0..<length es])"
    by (simp add: kept_def o_def)
  then show ?thesis
    using inj by (simp add: distinct_map)
qed

lemma kept_nonempty: "e \<in> set (kept s es) \<Longrightarrow> name_key e \<noteq> []"
  by (auto simp add: kept_def first_seen_def)


lemma entity_name_error: "entity_name e = Inl err \<Longrightarrow> err = AttributeError"
  by (auto simp add: entity_name_def split: option.splits json.splits)

lemma dedup_loop_total:
  "\<forall>e\<in>set es. entity_name e \<noteq> Inl AttributeError \<Longrightarrow> \<exists>out. dedup_loop seen unique es = Inr out"
proof (induction es arbitrary: seen unique)
  case Nil
  then show ?case by simp
next
  case (Cons e es)
  have "entity_name e \<noteq> Inl AttributeError" using Cons.prems by simp
  then obtain name where n: "entity_name e = Inr name"
    using entity_name_error [of e] by (cases "entity_name e") auto
  show ?case
    using Cons.IH Cons.prems n by (simp add: Let_def)
qed

lemma dedup_loop_raises:
  "\<exists>e\<in>set es. entity_name e = Inl AttributeError \<Longrightarrow> dedup_loop seen unique es = Inl AttributeError"
proof (induction es arbitrary: seen unique)
  case Nil
  then show ?case by simp
next
  case (Cons e es)
  show ?case
  proof (cases "entity_name e")
    case (Inl err)
    then show ?thesis using entity_name_error [of e err] by simp
  next
    case (Inr name)
    then have "\<exists>e\<in>set es. entity_name e = Inl AttributeError"
      using Cons.prems by auto
    then have "\<And>seen unique. dedup_loop seen unique es = Inl AttributeError"
      by (rule Cons.IH)
    then show ?thesis using Inr by (simp add: Let_def)
  qed
qed

text \<open>
  A batch whose second record has the name \<^verbatim>\<open>null\<close>: the loop raises and no list is
  produced.
\<close>

theorem deduplicate_null_name_counterexample:
  "deduplicate [JObject [(''name'', JString ''Acme'')], JObject [(''name'', JNull)]]
     = Inl AttributeError"
  by code_simp

text \<open>
  C9 (amended). For every batch in which each record is an object whose name is a string
  or missing, the deduplication loop returns a list in which no two records share the same
  case-insensitive trimmed name, no record has an empty (or missing) name, and which
  consists of exactly the records that are the first occurrence of their non-empty name, in
  input order. For every other batch (some record is not an object, or its name is
  \<^verbatim>\<open>null\<close>, a number or any other value that is not a string) the loop raises
  \<^verbatim>\<open>AttributeError\<close> and produces no list.
\<close>

theorem deduplicate_first_seen:
  "((\<forall>e\<in>set es. entity_name e \<noteq> Inl AttributeError) \<longrightarrow>
      (\<exists>out. deduplicate es = Inr out
         \<and> distinct (map name_key out)
         \<and> (\<forall>e\<in>set out. name_key e \<noteq> [])
         \<and> out = map (\<lambda>i. es ! i) (filter (first_seen {} es) [0..<length es])))
   \<and> ((\<exists>e\<in>set es. entity_name e = Inl AttributeError) \<longrightarrow> deduplicate es = Inl AttributeError)"
proof (intro conjI impI)
  assume a: "\<forall>e\<in>set es. entity_name e \<noteq> Inl AttributeError"
  obtain out where o: "dedup_loop {} [] es = Inr out"
    using dedup_loop_total [OF a] by blast
  then have k: "out = kept {} es"
    using dedup_loop_kept [of "{}" "[]" es out] by simp
  show "\<exists>out. deduplicate es = Inr out
         \<and> distinct (map name_key out)
         \<and> (\<forall>e\<in>set out. name_key e \<noteq> [])
         \<and> out = map (\<lambda>i. es ! i) (filter (first_seen {} es) [0..<length es])"
    using o k kept_keys_distinct [of "{}" es] kept_nonempty [of _ "{}" es]
    by (auto simp add: deduplicate_def kept_def)
next
  assume "\<exists>e\<in>set es. entity_name e = Inl AttributeError"
  then show "deduplicate es = Inl AttributeError"
    unfolding deduplicate_def by (rule dedup_loop_raises)
qed

text \<open>
  Five records: " Acme ", "ACME" (same key), a blank name, a record without a name, "Beta";
  and the same batch with a record named 5 in front.
\<close>

lemma dedup_example_names:
  "\<forall>e\<in>set [JObject [(''name'', JString '' Acme '')], JObject [(''name'', JString ''ACME'')],
      JObject [(''name'', JString ''  '')], JObject [(''id'', JInt 3)],
      JObject [(''name'', JString ''Beta'')]].
     entity_name e \<noteq> Inl AttributeError"
  by code_simp

lemma dedup_example_run:
  "deduplicate [JObject [(''name'', JString '' Acme '')], JObject [(''name'', JString ''ACME'')],
      JObject [(''name'', JString ''  '')], JObject [(''id'', JInt 3)],
      JObject [(''name'', JString ''Beta'')]]
   = Inr [JObject [(''name'', JString '' Acme '')], JObject [(''name'', JString ''Beta'')]]"
  by code_simp

lemma dedup_example_bad_name:
  "\<exists>e\<in>set [JObject [(''name'', JInt 5)], JObject [(''name'', JString '' Acme '')]].
     entity_name e = Inl AttributeError"
  by code_simp

theorem deduplicate_first_seen_witness:
  "deduplicate [JObject [(''name'', JString '' Acme '')], JObject [(''name'', JString ''ACME'')],
      JObject [(''name'', JString ''  '')], JObject [(''id'', JInt 3)],
      JObject [(''name'', JString ''Beta'')]]
     = Inr [JObject [(''name'', JString '' Acme '')], JObject [(''name'', JString ''Beta'')]]
   \<and> distinct (map name_key [JObject [(''name'', JString '' Acme '')], JObject [(''name'', JString ''Beta'')]])
   \<and> deduplicate [JObject [(''name'', JInt 5)], JObject [(''name'', JString '' Acme '')]]
     = Inl AttributeError"
  using deduplicate_first_seen
      [of "[JObject [(''name'', JString '' Acme '')], JObject [(''name'', JString ''ACME'')],
      JObject [(''name'', JString ''  '')], JObject [(''id'', JInt 3)],
      JObject [(''name'', JString ''Beta'')]]"]
    deduplicate_first_seen
      [of "[JObject [(''name'', JInt 5)], JObject [(''name'', JString '' Acme '')]]"]
    dedup_example_names dedup_example_run dedup_example_bad_name
  by auto

section \<open>Properties of ensure\_unique\_datetime\<close>

declare probe_loop.simps [simp del]

lemma probe_loop_spec:
  assumes "probe_loop orig used mn mx d ts a = Inr (found, d', ts', ws, a')"
    and "1 \<le> a" and "a \<le> Suc max_attempts" and "ts \<in> used"
  shows "a \<le> Suc a' \<and> a' \<le> max_attempts
     \<and> (\<forall>k. a \<le> k \<and> k < a' \<longrightarrow> probe_date orig mx k \<in> used \<and> \<not> out_of_range orig mn mx k)
     \<and> (found \<longrightarrow> d' \<notin> used \<and> ts' = d' \<and> ws = [] \<and> d' = probe_date orig mx a'
           \<and> a \<le> a' \<and> \<not> out_of_range orig mn mx a')
     \<and> (\<not> found \<longrightarrow> ts' \<in> used \<and>
           ((ws = [] \<and> a' = max_attempts \<and> (a \<le> a' \<longrightarrow> probe_date orig mx a' \<in> used \<and> \<not> out_of_range orig mn mx a'))
            \<or> (ws = [CannotFindInRange] \<and> a \<le> a' \<and> out_of_range orig mn mx a'
                 \<and> d' = orig - td_seconds (int a'))))"
  using assms
proof (induction orig used mn mx d ts a arbitrary: found d' ts' ws a' rule: probe_loop.induct)
  case (1 orig used mn mx d ts a)
  show ?case
  proof (cases "max_attempts < a")
    case True
    then show ?thesis
      using "1.prems" by (auto simp add: probe_loop.simps [of orig used mn mx d ts a])
  next
    case False
    note na = False
    have nv: "valid_datetime (orig + td_seconds (int a))"
      using "1.prems"(1) na
      by (auto simp add: probe_loop.simps [of orig used mn mx d ts a] Let_def split: if_splits)
    have nb: "\<not> ((case mx of None \<Rightarrow> False | Some mx \<Rightarrow> mx < orig + td_seconds (int a))
                 \<and> \<not> valid_datetime (orig - td_seconds (int a)))"
      using "1.prems"(1) na nv
      by (auto simp add: probe_loop.simps [of orig used mn mx d ts a] Let_def split: if_splits)
    show ?thesis
    proof (cases "out_of_range orig mn mx a")
      case True
      then show ?thesis
        using "1.prems" na nv nb
        by (auto simp add: probe_loop.simps [of orig used mn mx d ts a] out_of_range_def Let_def)
    next
      case False
      note nr = False
      let ?p = "probe_date orig mx a"
      show ?thesis
      proof (cases "?p \<in> used")
        case False
        then show ?thesis
          using "1.prems" na nr nv nb
          by (auto simp add: probe_loop.simps [of orig used mn mx d ts a] out_of_range_def
              probe_date_def Let_def split: option.splits if_splits)
      next
        case True
        have rec: "probe_loop orig used mn mx ?p ?p (Suc a) = Inr (found, d', ts', ws, a')"
          using "1.prems"(1) na nr nv nb True
          by (auto simp add: probe_loop.simps [of orig used mn mx d ts a] out_of_range_def
              probe_date_def Let_def split: option.splits if_splits)
        have ih: "Suc a \<le> Suc a' \<and> a' \<le> max_attempts
     \<and> (\<forall>k. Suc a \<le> k \<and> k < a' \<longrightarrow> probe_date orig mx k \<in> used \<and> \<not> out_of_range orig mn mx k)
     \<and> (found \<longrightarrow> d' \<notin> used \<and> ts' = d' \<and> ws = [] \<and> d' = probe_date orig mx a'
           \<and> Suc a \<le> a' \<and> \<not> out_of_range orig mn mx a')
     \<and> (\<not> found \<longrightarrow> ts' \<in> used \<and>
           ((ws = [] \<and> a' = max_attempts \<and> (Suc a \<le> a' \<longrightarrow> probe_date orig mx a' \<in> used \<and> \<not> out_of_range orig mn mx a'))
            \<or> (ws = [CannotFindInRange] \<and> Suc a \<le> a' \<and> out_of_range orig mn mx a'
                 \<and> d' = orig - td_seconds (int a'))))"
        proof (rule "1.IH" [OF na refl _ refl refl _ refl _ refl _ _ _ _ _])
          show "\<not> \<not> valid_datetime (orig + td_seconds (int a))" using nv by simp
          show "\<not> ((case mx of None \<Rightarrow> False | Some mx \<Rightarrow> mx < orig + td_seconds (int a)) \<and>
            \<not> valid_datetime (orig - td_seconds (int a)))"
            using nb by simp
          show "\<not> ((case mx of None \<Rightarrow> False | Some mx \<Rightarrow> mx < orig + td_seconds (int a)) \<and>
            (case mn of None \<Rightarrow> False | Some mn \<Rightarrow> orig - td_seconds (int a) < mn))"
            using nr by (simp add: out_of_range_def)
        qed (use rec True na "1.prems" in \<open>auto simp add: probe_date_def split: option.splits if_splits\<close>)
        show ?thesis
          using ih True nr
          by (auto simp add: le_Suc_eq less_Suc_eq_le dest: le_neq_implies_less)
      qed
    qed
  qed
qed

lemma probe_loop_overflow:
  assumes "probe_loop orig used mn mx d ts a = Inl err" and "1 \<le> a"
  shows "err = OverflowError \<and> (\<exists>k. a \<le> k \<and> k \<le> max_attempts \<and> overflows orig mx k
     \<and> (\<forall>j. a \<le> j \<and> j < k \<longrightarrow> probe_date orig mx j \<in> used \<and> \<not> out_of_range orig mn mx j
            \<and> \<not> overflows orig mx j))"
  using assms
proof (induction orig used mn mx d ts a arbitrary: err rule: probe_loop.induct)
  case (1 orig used mn mx d ts a)
  have na: "\<not> max_attempts < a"
    using "1.prems"(1) by (auto simp add: probe_loop.simps [of orig used mn mx d ts a])
  show ?case
  proof (cases "overflows orig mx a")
    case True
    have "err = OverflowError"
      using "1.prems"(1) na True
      by (auto simp add: probe_loop.simps [of orig used mn mx d ts a] overflows_def Let_def
          split: if_splits)
    moreover have "a \<le> a \<and> a \<le> max_attempts \<and> overflows orig mx a
       \<and> (\<forall>j. a \<le> j \<and> j < a \<longrightarrow> probe_date orig mx j \<in> used \<and> \<not> out_of_range orig mn mx j
            \<and> \<not> overflows orig mx j)"
      using na True by auto
    ultimately show ?thesis by blast
  next
    case False
    then have nv: "valid_datetime (orig + td_seconds (int a))"
      and nb: "\<not> ((case mx of None \<Rightarrow> False | Some mx \<Rightarrow> mx < orig + td_seconds (int a))
                 \<and> \<not> valid_datetime (orig - td_seconds (int a)))"
      by (auto simp add: overflows_def)
    have nr: "\<not> out_of_range orig mn mx a"
      using "1.prems"(1) na nv nb
      by (auto simp add: probe_loop.simps [of orig used mn mx d ts a] out_of_range_def Let_def
          split: if_splits)
    let ?p = "probe_date orig mx a"
    have pu: "?p \<in> used"
      using "1.prems"(1) na nv nb nr
      by (auto simp add: probe_loop.simps [of orig used mn mx d ts a] out_of_range_def
          probe_date_def Let_def split: option.splits if_splits)
    have rec: "probe_loop orig used mn mx ?p ?p (Suc a) = Inl err"
      using "1.prems"(1) na nv nb nr pu
      by (auto simp add: probe_loop.simps [of orig used mn mx d ts a] out_of_range_def
          probe_date_def Let_def split: option.splits if_splits)
    have ih: "err = OverflowError \<and> (\<exists>k. Suc a \<le> k \<and> k \<le> max_attempts \<and> overflows orig mx k
     \<and> (\<forall>j. Suc a \<le> j \<and> j < k \<longrightarrow> probe_date orig mx j \<in> used \<and> \<not> out_of_range orig mn mx j
            \<and> \<not> overflows orig mx j))"
    proof (rule "1.IH" [OF na refl _ refl refl _ refl _ refl _ _ _])
      show "\<not> \<not> valid_datetime (orig + td_seconds (int a))" using nv by simp
      show "\<not> ((case mx of None \<Rightarrow> False | Some mx \<Rightarrow> mx < orig + td_seconds (int a)) \<and>
            \<not> valid_datetime (orig - td_seconds (int a)))"
        using nb by simp
      show "\<not> ((case mx of None \<Rightarrow> False | Some mx \<Rightarrow> mx < orig + td_seconds (int a)) \<and>
            (case mn of None \<Rightarrow> False | Some mn \<Rightarrow> orig - td_seconds (int a) < mn))"
        using nr by (simp add: out_of_range_def)
    qed (use rec pu in \<open>auto simp add: probe_date_def split: option.splits if_splits\<close>)
    then obtain k where k: "Suc a \<le> k" "k \<le> max_attempts" "overflows orig mx k"
      "\<forall>j. Suc a \<le> j \<and> j < k \<longrightarrow> probe_date orig mx j \<in> used \<and> \<not> out_of_range orig mn mx j
            \<and> \<not> overflows orig mx j"
      by blast
    have "\<forall>j. a \<le> j \<and> j < k \<longrightarrow> probe_date orig mx j \<in> used \<and> \<not> out_of_range orig mn mx j
            \<and> \<not> overflows orig mx j"
    proof (intro allI impI)
      fix j assume j: "a \<le> j \<and> j < k"
      show "probe_date orig mx j \<in> used \<and> \<not> out_of_range orig mn mx j \<and> \<not> overflows orig mx j"
      proof (cases "j = a")
        case True
        then show ?thesis using pu nr False by simp
      next
        case False
        then have "Suc a \<le> j \<and> j < k" using j by simp
        then show ?thesis using k(4) by blast
      qed
    qed
    moreover have "a \<le> k" using k(1) by simp
    ultimately show ?thesis using ih k(2,3) by blast
  qed
qed

lemma dt_microsecond_probe_date: "dt_microsecond (probe_date orig mx k) = dt_microsecond orig"
proof -
  have "(orig + int k * 1000000) mod 1000000 = orig mod 1000000" by simp
  moreover have "(orig - int k * 1000000) mod 1000000 = orig mod 1000000"
    by (metis mod_diff_right_eq mod_mult_self2_is_0 diff_zero mod_mod_trivial)
  ultimately show ?thesis
    by (simp add: probe_date_def dt_microsecond_def td_seconds_def split: option.splits)
qed

lemma second_granularity_whole: "dt_microsecond t = 0 \<Longrightarrow> second_granularity t = t"
  by (simp add: second_granularity_def replace_microsecond_def)

lemma clamped_whole_second:
  assumes "\<And>m. mn = Some m \<Longrightarrow> dt_microsecond m = 0"
    and "\<And>m. mx = Some m \<Longrightarrow> dt_microsecond m = 0"
  shows "dt_microsecond (clamped date0 mn mx) = 0"
proof -
  have "dt_microsecond (replace_microsecond date0 0) = 0"
    by (simp add: replace_microsecond_def dt_microsecond_def)
  then show ?thesis
    using assms by (auto simp add: clamped_def Let_def split: option.splits)
qed

lemma clamped_eq:
  "clamped date0 mn mx =
     (let date1 = replace_microsecond date0 0;
          date2 = (case mx of None \<Rightarrow> date1 | Some m \<Rightarrow> if m < date1 then m else date1)
      in case mn of None \<Rightarrow> date2 | Some m \<Rightarrow> if date2 < m then m else date2)"
  by (simp add: clamped_def)

text \<open>
  With 2024-01-01T00:00:00 as the date and as both bounds, and that second and the one
  before it already used, the first step leaves the range: the function returns
  2023-12-31T23:59:59, which is in the used-set, after 1 of the 86400 steps.
\<close>

theorem ensure_unique_datetime_collision_counterexample:
  "ensure_unique_datetime 63839664000000000 {63839664000000000, 63839663999000000}
       (Some 63839664000000000) (Some 63839664000000000) ''created'' Map.empty
     = Inr \<lparr>returned = 63839663999000000,
            used_after = {63839664000000000, 63839663999000000},
            counters_after = Map.empty,
            warnings = [CannotFindInRange, CouldNotFindUnique], last_attempt = 1\<rparr>
   \<and> second_granularity 63839663999000000 \<in> {63839664000000000, 63839663999000000 :: int}
   \<and> 1 < max_attempts"
  by (simp add: ensure_unique_datetime_def replace_microsecond_def dt_microsecond_def
      second_granularity_def valid_datetime_def DAY_def
      probe_loop.simps [of _ _ _ _ _ _ "Suc 0"] max_attempts_def td_seconds_def Let_def)

text \<open>
  The clamp comes after the truncation to whole seconds. With 2024-01-01T00:00:05.7 as the
  date, the upper bound 2024-01-01T00:00:00.25 and the second 00:00:00 used, the function
  returns the bound with its microseconds, without a probe and without a warning; the
  second-granularity form of what it returns is the used 2024-01-01T00:00:00.
\<close>

lemma ensure_unique_datetime_subsecond_bound_example:
  "ensure_unique_datetime 63839664005700000 {63839664000000000}
       None (Some 63839664000250000) ''created'' Map.empty
     = Inr \<lparr>returned = 63839664000250000,
            used_after = {63839664000250000, 63839664000000000},
            counters_after = Map.empty, warnings = [], last_attempt = 0\<rparr>
   \<and> second_granularity 63839664000250000 \<in> {63839664000000000 :: int}"
  by (simp add: ensure_unique_datetime_def replace_microsecond_def dt_microsecond_def
      second_granularity_def Let_def)

text \<open>
  At 9999-12-31T23:59:59 with that second used, the first forward step leaves the years
  1..9999 and the function raises.
\<close>

lemma ensure_unique_datetime_overflow_example:
  "ensure_unique_datetime 315537897599000000 {315537897599000000} None (Some 315537897599000000)
       ''created'' Map.empty
     = Inl OverflowError"
  by (simp add: ensure_unique_datetime_def replace_microsecond_def dt_microsecond_def
      valid_datetime_def DAY_def
      probe_loop.simps [of _ _ _ _ _ _ "Suc 0"] max_attempts_def td_seconds_def Let_def)

text \<open>
  C3 (amended). When no probe step leaves the years 1..9999, \<open>ensure_unique_datetime\<close>
  returns a timestamp whose ISO form is not in the used-set (and adds it, logging nothing),
  unless either every one of the 86400 one-second probe steps hit a used timestamp, or a
  probe step left the range (forward past \<^verbatim>\<open>max_date\<close> and backward below \<^verbatim>\<open>min_date\<close>) after
  all earlier steps hit used timestamps; in these two cases it logs the warning and returns
  a best-effort value. The timestamp returned without a warning is a whole second, so that
  its second-granularity ISO form is not in the used-set either, when the start of the
  probing (the input truncated to whole seconds, then clamped to the bounds) is a whole
  second, as it is for bounds that are whole seconds; a bound with microseconds is returned
  as it is by the clamp. When a probe step leaves the years 1..9999 after all earlier steps
  hit used timestamps, the function raises \<^verbatim>\<open>OverflowError\<close>.
\<close>

theorem ensure_unique_datetime_unused_or_logged:
  "let orig = clamped date0 mn mx in
   case ensure_unique_datetime date0 used mn mx field_name counters of
     Inr r \<Rightarrow>
       (returned r \<notin> used \<and> warnings r = [] \<and> used_after r = insert (returned r) used
          \<and> (dt_microsecond orig = 0 \<longrightarrow>
                dt_microsecond (returned r) = 0 \<and> second_granularity (returned r) \<notin> used))
       \<or> (orig \<in> used \<and> warnings r = [CouldNotFindUnique] \<and> last_attempt r = max_attempts
            \<and> (\<forall>k. 1 \<le> k \<and> k \<le> max_attempts \<longrightarrow> probe_date orig mx k \<in> used))
       \<or> (orig \<in> used \<and> warnings r = [CannotFindInRange, CouldNotFindUnique]
            \<and> 1 \<le> last_attempt r \<and> last_attempt r \<le> max_attempts
            \<and> out_of_range orig mn mx (last_attempt r)
            \<and> (\<forall>k. 1 \<le> k \<and> k < last_attempt r \<longrightarrow> probe_date orig mx k \<in> used))
   | Inl err \<Rightarrow>
       err = OverflowError \<and> orig \<in> used
       \<and> (\<exists>k. 1 \<le> k \<and> k \<le> max_attempts \<and> overflows orig mx k
            \<and> (\<forall>j. 1 \<le> j \<and> j < k \<longrightarrow> probe_date orig mx j \<in> used
                   \<and> \<not> out_of_range orig mn mx j \<and> \<not> overflows orig mx j))"
proof (cases "clamped date0 mn mx \<in> used")
  case False
  then show ?thesis
    by (simp add: ensure_unique_datetime_def clamped_def Let_def second_granularity_whole)
next
  case True
  let ?o = "clamped date0 mn mx"
  let ?c = "case counters field_name of None \<Rightarrow> counters
           | Some c \<Rightarrow> if field_name \<noteq> [] then counters(field_name \<mapsto> c + 1) else counters"
  show ?thesis
  proof (cases "probe_loop ?o used mn mx ?o ?o 1")
    case (Inl err)
    have r: "ensure_unique_datetime date0 used mn mx field_name counters = Inl err"
      using True Inl unfolding ensure_unique_datetime_def clamped_eq Let_def by simp
    show ?thesis
      using probe_loop_overflow [OF Inl] True r by (simp add: Let_def)
  next
    case (Inr res)
    obtain found d ts ws a where res: "res = (found, d, ts, ws, a)"
      by (metis prod_cases5)
    have p: "probe_loop ?o used mn mx ?o ?o 1 = Inr (found, d, ts, ws, a)"
      using Inr res by simp
    have spec: "1 \<le> Suc a \<and> a \<le> max_attempts
     \<and> (\<forall>k. 1 \<le> k \<and> k < a \<longrightarrow> probe_date ?o mx k \<in> used \<and> \<not> out_of_range ?o mn mx k)
     \<and> (found \<longrightarrow> d \<notin> used \<and> ts = d \<and> ws = [] \<and> d = probe_date ?o mx a
           \<and> 1 \<le> a \<and> \<not> out_of_range ?o mn mx a)
     \<and> (\<not> found \<longrightarrow> ts \<in> used \<and>
           ((ws = [] \<and> a = max_attempts \<and> (1 \<le> a \<longrightarrow> probe_date ?o mx a \<in> used \<and> \<not> out_of_range ?o mn mx a))
            \<or> (ws = [CannotFindInRange] \<and> 1 \<le> a \<and> out_of_range ?o mn mx a
                 \<and> d = ?o - td_seconds (int a))))"
      by (rule probe_loop_spec [OF p]) (use True in \<open>simp_all add: max_attempts_def\<close>)
    have r: "ensure_unique_datetime date0 used mn mx field_name counters =
      Inr \<lparr>returned = d, used_after = insert ts used, counters_after = ?c,
        warnings = (if found then ws else ws @ [CouldNotFindUnique]), last_attempt = a\<rparr>"
      using True p unfolding ensure_unique_datetime_def clamped_eq Let_def
      by (cases found) simp_all
    show ?thesis
    proof (cases found)
      case True
      then have "dt_microsecond d = dt_microsecond ?o"
        using spec dt_microsecond_probe_date [of ?o mx a] by simp
      then show ?thesis
        using spec r True by (auto simp add: Let_def second_granularity_whole)
    next
      case False
      then show ?thesis
        using spec r True
        by (auto simp add: Let_def insert_absorb le_less)
    qed
  qed
qed

text \<open>
  2024-01-01T00:00:00.5 with that second used and no bounds: the next second is returned.
\<close>

theorem ensure_unique_datetime_unused_or_logged_witness:
  "ensure_unique_datetime 63839664000500000 {63839664000000000} None None ''created'' Map.empty
     = Inr \<lparr>returned = 63839664001000000,
            used_after = {63839664001000000, 63839664000000000},
            counters_after = Map.empty, warnings = [], last_attempt = 1\<rparr>
   \<and> dt_microsecond (clamped 63839664000500000 None None) = 0
   \<and> second_granularity 63839664001000000 \<notin> {63839664000000000 :: int}
   \<and> clamped 63839664000500000 None None \<in> {63839664000000000 :: int}
   \<and> probe_date (clamped 63839664000500000 None None) None 1 = 63839664001000000"
  using ensure_unique_datetime_unused_or_logged
    [of 63839664000500000 None None "{63839664000000000}" "''created''" Map.empty]
  by (simp add: ensure_unique_datetime_def replace_microsecond_def dt_microsecond_def clamped_def
      second_granularity_def valid_datetime_def DAY_def
      probe_date_def probe_loop.simps [of _ _ _ _ _ _ "Suc 0"] max_attempts_def td_seconds_def Let_def)

section \<open>Properties of the float operations\<close>

lemma round_half_even_of_int: "round_half_even (of_int k) = k"
  by (simp add: round_half_even_def)

lemma round_half_even_error: "\<bar>of_int (round_half_even y) - y\<bar> \<le> 1 / 2"
  unfolding round_half_even_def Let_def by (auto; linarith)

lemma ilog2_le:
  assumes "0 < x"
  shows "2 powi ilog2 x \<le> x"
proof (cases "1 \<le> x")
  case True
  define n where "n = \<lfloor>x\<rfloor>"
  have n1: "1 \<le> n" using True by (simp add: n_def)
  then have n0: "0 < n" by simp
  have b1: "1 \<le> bitlen n" using n0 by (simp add: bitlen_alt_def)
  have "2 ^ nat (bitlen n - 1) \<le> n" using bitlen_bounds [OF n0] by simp
  then have "real_of_int (2 ^ nat (bitlen n - 1)) \<le> real_of_int n" by (simp only: of_int_le_iff)
  then have "(2::real) ^ nat (bitlen n - 1) \<le> real_of_int n" by simp
  moreover have "real_of_int n \<le> x" unfolding n_def by (rule of_int_floor_le)
  ultimately have "(2::real) ^ nat (bitlen n - 1) \<le> x" by linarith
  moreover have "(2::real) powi (bitlen n - 1) = 2 ^ nat (bitlen n - 1)"
    using b1 by (simp add: power_int_def)
  moreover have "ilog2 x = bitlen n - 1" using True by (simp add: ilog2_def n_def)
  ultimately show ?thesis by simp
next
  case False
  then have x1: "x < 1" by simp
  define m where "m = \<lceil>1 / x\<rceil> - 1"
  have "1 < 1 / x" using assms x1 by simp
  then have m1: "0 < m" unfolding m_def by (simp add: less_ceiling_iff)
  have b0: "0 \<le> bitlen m" by (rule bitlen_nonneg)
  have "m < 2 ^ nat (bitlen m)" using bitlen_bounds [OF m1] by simp
  then have "\<lceil>1 / x\<rceil> \<le> 2 ^ nat (bitlen m)" by (simp add: m_def)
  then have "1 / x \<le> real_of_int (2 ^ nat (bitlen m))" by (simp only: ceiling_le_iff)
  then have "1 / x \<le> 2 ^ nat (bitlen m)" by simp
  then have "1 \<le> 2 ^ nat (bitlen m) * x"
    using assms by (simp add: pos_divide_le_eq)
  then have "1 / 2 ^ nat (bitlen m) \<le> x"
    by (simp add: pos_divide_le_eq mult.commute)
  moreover have "(2::real) powi (- bitlen m) = 1 / 2 ^ nat (bitlen m)"
    using b0 by (simp add: power_int_def inverse_eq_divide power_one_over)
  moreover have "ilog2 x = - bitlen m" using False by (simp add: ilog2_def m_def)
  ultimately show ?thesis by simp
qed

lemma ilog2_less:
  assumes "0 < x" and "x < 2 powi k"
  shows "ilog2 x < k"
proof (rule ccontr)
  assume "\<not> ilog2 x < k"
  then have "k \<le> ilog2 x" by simp
  then have "(2::real) powi k \<le> 2 powi ilog2 x"
    by (intro power_int_increasing) simp_all
  then show False using ilog2_le [OF assms(1)] assms(2) by linarith
qed

lemma double_exact:
  assumes "\<bar>m\<bar> < 2 ^ 53" 
  shows "double (of_int m * 2 powi k) = of_int m * 2 powi k"
proof (cases "m = 0")
  case True
  then show ?thesis by (simp add: double_def)
next
  case False
  define x :: real where "x = of_int m * 2 powi k"
  have p0: "\<And>j. (0::real) < 2 powi j" by simp
  have xn: "x \<noteq> 0" using False by (simp add: x_def)
  have ax: "\<bar>x\<bar> = of_int \<bar>m\<bar> * 2 powi k" by (simp add: x_def abs_mult)
  have "real_of_int \<bar>m\<bar> < real_of_int (2 ^ 53)" using assms by (simp only: of_int_less_iff)
  then have "real_of_int \<bar>m\<bar> < 2 powi 53" by simp
  then have "\<bar>x\<bar> < 2 powi 53 * 2 powi k"
    unfolding ax using p0 [of k] by (simp only: mult_less_cancel_right_pos)
  then have "\<bar>x\<bar> < 2 powi (53 + k)" by (simp add: power_int_add)
  then have "ilog2 \<bar>x\<bar> < 53 + k" using xn by (intro ilog2_less) simp_all
  then have e: "ilog2 \<bar>x\<bar> - 52 \<le> k" by simp
  define e where "e = ilog2 \<bar>x\<bar> - 52"
  define j where "j = nat (k - e)"
  have ke: "k = e + int j" using e by (simp add: e_def j_def)
  have "x / 2 powi e = of_int m * (2 powi k / 2 powi e)" by (simp add: x_def)
  also have "2 powi k / 2 powi e = (2::real) ^ j"
    unfolding ke by (simp add: power_int_add)
  finally have q: "x / 2 powi e = of_int (m * 2 ^ j)" by simp
  have "double x = of_int (round_half_even (x / 2 powi e)) * 2 powi e"
    using xn by (simp add: double_def e_def Let_def)
  also have "\<dots> = of_int (m * 2 ^ j) * 2 powi e"
    unfolding q round_half_even_of_int ..
  also have "\<dots> = of_int m * (2 ^ j * 2 powi e)" by simp
  also have "(2::real) ^ j * 2 powi e = 2 powi k"
    unfolding ke by (simp add: power_int_add)
  finally show ?thesis by (simp add: x_def)
qed

lemma double_of_int: "\<bar>n\<bar> < 2 ^ 53 \<Longrightarrow> double (of_int n) = of_int n"
  using double_exact [of n 0] by simp

lemma float_of_int_exact: "\<bar>n\<bar> < 2 ^ 53 \<Longrightarrow> float_of_int n = of_int n"
  by (simp add: float_of_int_def double_of_int)

lemma double_error: "\<bar>double x - x\<bar> \<le> \<bar>x\<bar> / 2 ^ 53"
proof (cases "x = 0")
  case True
  then show ?thesis by (simp add: double_def)
next
  case False
  define e where "e = ilog2 \<bar>x\<bar> - 52"
  define p :: real where "p = 2 powi e"
  have p0: "0 < p" by (simp add: p_def)
  have d: "double x = of_int (round_half_even (x / p)) * p"
    using False by (simp add: double_def e_def p_def Let_def)
  have "double x - x = (of_int (round_half_even (x / p)) - x / p) * p"
    unfolding d using p0 by (simp add: algebra_simps)
  then have "\<bar>double x - x\<bar> = \<bar>of_int (round_half_even (x / p)) - x / p\<bar> * p"
    using p0 by (simp add: abs_mult)
  also have "\<dots> \<le> 1 / 2 * p"
    using round_half_even_error [of "x / p"] p0 by (intro mult_right_mono) simp_all
  finally have 1: "\<bar>double x - x\<bar> \<le> p / 2" by simp
  have "p * 2 ^ 52 = 2 powi ilog2 \<bar>x\<bar>"
  proof -
    have "(2::real) powi ilog2 \<bar>x\<bar> = 2 powi (e + 52)" by (simp add: e_def)
    also have "\<dots> = p * 2 powi 52" unfolding p_def by (simp add: power_int_add)
    finally show ?thesis by simp
  qed
  also have "\<dots> \<le> \<bar>x\<bar>" using False by (intro ilog2_le) simp
  finally have "p * 2 ^ 52 \<le> \<bar>x\<bar>" .
  then have "p / 2 \<le> \<bar>x\<bar> / 2 ^ 53" by simp
  then show ?thesis using 1 by linarith
qed

section \<open>Properties of update\_entity\_dates\<close>

subsection \<open>Calendar days and time of day\<close>

lemma date_floor: "date_of t * DAY \<le> t \<and> t < date_of t * DAY + DAY"
proof -
  have "t = date_of t * DAY + t mod DAY"
    by (simp add: date_of_def)
  moreover have "0 \<le> t mod DAY \<and> t mod DAY < DAY"
    by (simp add: DAY_def)
  ultimately show ?thesis by linarith
qed

lemma date_of_mono: "a \<le> b \<Longrightarrow> date_of a \<le> date_of b"
  by (simp add: date_of_def DAY_def zdiv_mono1)

lemma date_of_sub_days: "date_of (t - td_days n) = date_of t - n"
  using date_of_add_days [of t "- n"] by (simp add: td_days_def)

lemma date_of_replace_time:
  assumes "0 \<le> h" "h \<le> 23" "0 \<le> m" "m \<le> 59" "0 \<le> s" "s \<le> 59" "0 \<le> us" "us \<le> 999999"
  shows "date_of (replace_time d h m s us) = date_of d"
proof -
  let ?tod = "((h * 60 + m) * 60 + s) * 1000000 + us"
  have "0 \<le> ?tod" using assms by simp
  moreover have "?tod < DAY" using assms by (simp add: DAY_def)
  ultimately have "(date_of d * DAY + ?tod) div DAY = date_of d"
    by (simp add: DAY_def div_pos_pos_trivial)
  then show ?thesis
    by (simp add: replace_time_def date_of_def [of "_ + _"] add.assoc)
qed

lemma replace_time_lower:
  assumes "0 \<le> h" "0 \<le> m" "0 \<le> s" "0 \<le> us"
  shows "date_of d * DAY \<le> replace_time d h m s us"
  using assms by (simp add: replace_time_def)

lemma replace_time_upper:
  assumes "h \<le> 23" "m \<le> 59" "s \<le> 59" "us \<le> 999999"
  shows "replace_time d h m s us < date_of d * DAY + DAY"
  using assms by (simp add: replace_time_def DAY_def)

lemma created_time_of_day_date: "date_of (created_time_of_day i d) = date_of d"
  unfolding created_time_of_day_def Let_def
  by (rule date_of_replace_time) simp_all

lemma created_time_of_day_upper: "created_time_of_day i d < date_of d * DAY + DAY"
  unfolding created_time_of_day_def Let_def
  by (rule replace_time_upper) simp_all

lemma created_time_of_day_yesterday: "created_time_of_day i (now - td_days 1) \<le> now"
  using created_time_of_day_upper [of i "now - td_days 1"] date_floor [of now]
  by (simp add: date_of_sub_days algebra_simps)


lemma replace_mod_tomorrow:
  assumes "tod_nonneg v"
  shows "d < replace_mod v (d + td_days 1)"
proof -
  have "date_of (d + td_days 1) * DAY \<le> replace_mod v (d + td_days 1)"
    unfolding replace_mod_def using assms by (intro replace_time_lower) (simp_all add: tod_nonneg_def)
  then show ?thesis
    using date_floor [of d] by (simp add: date_of_add_days algebra_simps)
qed

lemma dt_hour_nonneg: "0 \<le> dt_hour t"
  by (simp add: dt_hour_def DAY_def pos_imp_zdiv_nonneg_iff)

lemma tod_nonneg_mod_date [simp]: "tod_nonneg (v\<lparr>mod_date := d\<rparr>) = tod_nonneg v"
  by (simp add: tod_nonneg_def)

lemma modified_same_day_tod: "tod_nonneg v \<Longrightarrow> tod_nonneg (modified_same_day now i c v)"
proof -
  assume v: "tod_nonneg v"
  have w: "tod_nonneg (v\<lparr>mod_seconds := (i * 19) mod 60, mod_microseconds := (i * 29) mod 1000000\<rparr>)"
    using v by (simp add: tod_nonneg_def)
  show ?thesis
    unfolding modified_same_day_def Let_def
    using v w by (simp only: tod_nonneg_mod_date if_split) simp
qed


lemma modified_within_tod: "tod_nonneg (modified_within now n i c k v)"
proof -
  let ?w = "v\<lparr>mod_hours := min 17 (max 8 (8 + ((dt_hour c + i * 7) mod 10))),
                mod_minutes := (dt_minute c + (i * 11)) mod 60,
                mod_seconds := (dt_second c + (i * 19)) mod 60,
                mod_microseconds := (i * 29) mod 1000000\<rparr>"
  have w: "tod_nonneg ?w" by (simp add: tod_nonneg_def)
  have x: "tod_nonneg (?w\<lparr>mod_hours := min (dt_hour c + 1) 17\<rparr>)"
    using dt_hour_nonneg [of c] by (simp add: tod_nonneg_def)
  show ?thesis
    unfolding modified_within_def Let_def
    using w x by (simp only: tod_nonneg_mod_date if_split) simp
qed

lemma modified_first_tod: "tod_nonneg (modified_first n i c)"
  by (simp add: modified_first_def tod_nonneg_def Let_def)

lemma modified_from_created_tod: "tod_nonneg (modified_from_created now n i c)"
  using modified_first_tod [of n i c] modified_same_day_tod [of "modified_first n i c" now i c]
    modified_within_tod [of now n i c _ "modified_first n i c"]
  by (simp add: modified_from_created_def Let_def)

lemma enforce_order_ge:
  assumes "tod_nonneg v"
  shows "c \<le> mod_date (enforce_order c v) \<and> tod_nonneg (enforce_order c v)"
  using assms replace_mod_tomorrow [OF assms, of c]
  by (simp add: enforce_order_def tod_nonneg_def)

lemma reclamp_created_ok:
  assumes "tod_nonneg v" "c \<le> mod_date v" "reclamp_created now i c v = (c', v')"
  shows "c' \<le> now \<and> c' \<le> mod_date v' \<and> (c \<le> now \<longrightarrow> c' = c)"
proof (cases "now < c")
  case False
  then have "reclamp_created now i c v = (c, v)"
    by (simp add: reclamp_created_def)
  then show ?thesis using assms False by simp
next
  case True
  define c1 where "c1 = created_time_of_day i (now - td_days 1)"
  define w where "w = v\<lparr>mod_hours := min 17 (max 8 (8 + ((dt_hour c1 + i * 7) mod 10))),
              mod_minutes := (dt_minute c1 + (i * 11)) mod 60,
              mod_seconds := (dt_second c1 + (i * 19)) mod 60,
              mod_microseconds := (i * 29) mod 1000000\<rparr>"
  define v1 where "v1 = (if mod_date v \<le> c1 then w\<lparr>mod_date := replace_mod w (c1 + td_days 1)\<rparr> else v)"
  define v2 where "v2 = (if now < mod_date v1 then v1\<lparr>mod_date := now\<rparr> else v1)"
  have r: "reclamp_created now i c v = (c1, v2)"
    unfolding reclamp_created_def Let_def v2_def v1_def w_def c1_def
    using True by (simp only: if_True)
  have le: "c1 \<le> now" unfolding c1_def by (rule created_time_of_day_yesterday)
  have "tod_nonneg w" by (simp add: w_def tod_nonneg_def)
  then have gt: "c1 < replace_mod w (c1 + td_days 1)" by (rule replace_mod_tomorrow)
  have m1: "c1 \<le> mod_date v1"
  proof (cases "mod_date v \<le> c1")
    case True
    then have "mod_date v1 = replace_mod w (c1 + td_days 1)" by (simp add: v1_def)
    then show ?thesis using gt by simp
  next
    case False
    then have "mod_date v1 = mod_date v" by (simp add: v1_def)
    then show ?thesis using False by simp
  qed
  have m2: "c1 \<le> mod_date v2"
  proof (cases "now < mod_date v1")
    case True
    then have "mod_date v2 = now" by (simp add: v2_def)
    then show ?thesis using le by simp
  next
    case False
    then have "mod_date v2 = mod_date v1" by (simp add: v2_def)
    then show ?thesis using m1 by simp
  qed
  have "c' = c1" "v' = v2" using assms(3) r by simp_all
  then show ?thesis using le m2 True by simp
qed

lemma clamp_modified_ok:
  assumes "c \<le> now" "c \<le> m"
  shows "clamp_modified now c m \<le> now \<and> c \<le> clamp_modified now c m"
  using assms by (simp add: clamp_modified_def Let_def td_days_def DAY_def min_def)

lemma compute_dates_order:
  assumes "compute_dates now now_a now_b now_c days_range total_items date_idx created_ref modified_ref = (c, m)"
  shows "c \<le> now \<and> m \<le> now \<and> c \<le> m"
proof -
  define c0 where "c0 = (case created_ref of
      None \<Rightarrow> created_from_position now now_c days_range total_items date_idx
    | Some p \<Rightarrow> created_from_reference now days_range total_items date_idx p)"
  define v1 where "v1 = enforce_order c0 (modified_from_created now total_items date_idx c0)"
  obtain c1 v2 where r: "reclamp_created now date_idx c0 v1 = (c1, v2)"
    by (cases "reclamp_created now date_idx c0 v1") auto
  have cm: "c = c1 \<and> m = clamp_modified now c1 (mod_date v2)"
    using assms r unfolding compute_dates_def c0_def v1_def Let_def
    by (auto split: option.splits)
  have e: "c0 \<le> mod_date v1 \<and> tod_nonneg v1"
    unfolding v1_def by (rule enforce_order_ge) (rule modified_from_created_tod)
  have k: "c1 \<le> now \<and> c1 \<le> mod_date v2"
    using reclamp_created_ok [of v1 c0 now date_idx c1 v2] e r by simp
  show ?thesis
    using cm k clamp_modified_ok [of c1 now "mod_date v2"] by simp
qed


lemma clamp_bounds: "(lo::int) \<le> max lo (min x hi) \<and> (lo \<le> hi \<longrightarrow> max lo (min x hi) \<le> hi)"
  by simp

lemma blended_days_bounds:
  "0 \<le> blended_days now D n i p \<and> (0 \<le> D \<longrightarrow> blended_days now D n i p \<le> D)"
  unfolding blended_days_def Let_def by (rule clamp_bounds)

lemma position_days_ago_bounds:
  "1 \<le> position_days_ago D n i \<and> (1 \<le> D \<longrightarrow> position_days_ago D n i \<le> D)"
  unfolding position_days_ago_def Let_def by (rule clamp_bounds)

lemma created_time_of_day_settle:
  assumes "1 \<le> D" and "date_of now - D \<le> date_of x"
  shows "(if now < created_time_of_day i x then created_time_of_day i (now - td_days 1)
          else created_time_of_day i x) \<le> now
    \<and> date_of (now - td_days D)
        \<le> date_of (if now < created_time_of_day i x then created_time_of_day i (now - td_days 1)
                    else created_time_of_day i x)"
  using assms created_time_of_day_yesterday [of i now]
  by (simp add: created_time_of_day_date date_of_sub_days)

lemma created_from_reference_ok:
  assumes "1 \<le> D"
  shows "created_from_reference now D n i p \<le> now
    \<and> date_of (now - td_days D) \<le> date_of (created_from_reference now D n i p)"
proof -
  define q where "q = (if now < p then now - td_days 1 else p)"
  define b where "b = blended_days now D n i q"
  define x where "x = (let c = now - td_days D + td_days b;
                           c = (if now < c then now - td_days 1 else c)
                       in if c < now - td_days D then now - td_days D else c)"
  have bb: "0 \<le> b \<and> b \<le> D"
    using blended_days_bounds [of now D n i q] assms by (simp add: b_def)
  have "now - td_days D \<le> x"
    by (simp add: x_def Let_def)
  then have "date_of (now - td_days D) \<le> date_of x" by (rule date_of_mono)
  then have dx: "date_of now - D \<le> date_of x" by (simp add: date_of_sub_days)
  have r: "created_from_reference now D n i p =
      (if now < created_time_of_day i x then created_time_of_day i (now - td_days 1)
       else created_time_of_day i x)"
    by (simp add: created_from_reference_def x_def b_def q_def Let_def)
  show ?thesis
    unfolding r using assms dx by (rule created_time_of_day_settle)
qed

lemma created_from_position_ok:
  assumes "1 \<le> D" and "now \<le> now_c"
  shows "created_from_position now now_c D n i \<le> now
    \<and> date_of (now - td_days D) \<le> date_of (created_from_position now now_c D n i)"
proof -
  define x where "x = now_c - td_days (position_days_ago D n i)"
  have "date_of now \<le> date_of now_c" using assms(2) by (rule date_of_mono)
  then have dx: "date_of now - D \<le> date_of x"
    using position_days_ago_bounds [of D n i] assms(1) by (simp add: x_def date_of_sub_days)
  have r: "created_from_position now now_c D n i =
      (if now < created_time_of_day i x then created_time_of_day i (now - td_days 1)
       else created_time_of_day i x)"
    by (simp add: created_from_position_def x_def Let_def)
  show ?thesis
    unfolding r using assms(1) dx by (rule created_time_of_day_settle)
qed

lemma compute_dates_created:
  assumes "compute_dates now now_a now_b now_c D n i created_ref modified_ref = (c, m)"
    and "1 \<le> D" and "now \<le> now_c"
  shows "date_of (now - td_days D) \<le> date_of c"
proof -
  define c0 where "c0 = (case created_ref of
      None \<Rightarrow> created_from_position now now_c D n i
    | Some p \<Rightarrow> created_from_reference now D n i p)"
  define v1 where "v1 = enforce_order c0 (modified_from_created now n i c0)"
  obtain c1 v2 where r: "reclamp_created now i c0 v1 = (c1, v2)"
    by (cases "reclamp_created now i c0 v1") auto
  have cm: "c = c1"
    using assms(1) r unfolding compute_dates_def c0_def v1_def Let_def
    by (auto split: option.splits)
  have ok: "c0 \<le> now \<and> date_of (now - td_days D) \<le> date_of c0"
    unfolding c0_def
    using created_from_position_ok [OF assms(2,3)] created_from_reference_ok [OF assms(2)]
    by (simp split: option.splits)
  have e: "c0 \<le> mod_date v1 \<and> tod_nonneg v1"
    unfolding v1_def by (rule enforce_order_ge) (rule modified_from_created_tod)
  have "c1 = c0"
    using reclamp_created_ok [of v1 c0 now i c1 v2] e r ok by simp
  then show ?thesis using cm ok by simp
qed

subsection \<open>A batch of two, read at 2024-06-01T20:00:00\<close>

text \<open>
  \<open>now\<close> is 2024-06-01T20:00:00 (63852868800000000), the later clock reading one
  millisecond after it, \<^verbatim>\<open>months_back = 36\<close> (1080 days), two records, no reference dates.
  The second record (index 1) gets 1080 days ago and the time of day 15:11:19.000023, that
  is 2021-06-17T15:11:19.000023, while \<^verbatim>\<open>min_date\<close> is 2021-06-17T20:00:00.
\<close>

lemma days_ago_two_last: "position_days_ago 1080 2 1 = 1080"
  by code_simp

lemma created_two_last: "created_from_position 63852868800000000 63852868800001000 1080 2 1 = 63759539479000023"
  by (simp add: created_from_position_def days_ago_two_last created_time_of_day_def replace_time_def date_of_def
      td_days_def DAY_def Let_def)

lemma days_variation_two_last: "days_variation_first 2 1 = 180"
  by code_simp

lemma modified_two_last: "mod_date (modified_from_created 63852868800000000 2 1 63759539479000023) = 63775074158000029"
  by (simp add: modified_from_created_def modified_first_def days_variation_two_last replace_mod_def replace_time_def
      date_of_def dt_hour_def dt_minute_def dt_second_def td_days_def DAY_def Let_def)


lemma compute_dates_example:
  "compute_dates 63852868800000000 63852868800000000 63852868800000000 63852868800001000
     1080 2 1 None None
   = (63759539479000023, 63775074158000029)"
  by (simp add: compute_dates_def created_two_last modified_two_last enforce_order_def reclamp_created_def
      clamp_modified_def Let_def)

theorem compute_dates_min_date_counterexample:
  "fst (compute_dates 63852868800000000 63852868800000000 63852868800000000 63852868800001000
     1080 2 1 None None)
   < 63852868800000000 - td_days 1080"
  by (simp add: compute_dates_example td_days_def DAY_def)

text \<open>
  C1 (amended). For every record processed by \<open>update_entity_dates\<close>, the computed pair
  satisfies \<open>created_at \<le> now\<close>, \<open>modified_at \<le> now\<close> and \<open>modified_at \<ge> created_at\<close>, for
  every batch size, index and reference-date configuration; and, when the window has at
  least one day and the clock does not run backwards, \<open>created_at\<close> is not before the
  calendar day of \<open>min_date = now - lookback_days\<close> (it may be earlier than \<open>min_date\<close> on
  that day, since the time of day is synthesized after the clamp).
\<close>

theorem compute_dates_invariants:
  assumes "compute_dates now now_a now_b now_c days_range total_items date_idx created_ref modified_ref
             = (created_at, modified_at)"
  shows "created_at \<le> now \<and> modified_at \<le> now \<and> created_at \<le> modified_at
     \<and> (1 \<le> days_range \<and> now \<le> now_c
          \<longrightarrow> date_of (now - td_days days_range) \<le> date_of created_at)"
  using compute_dates_order [OF assms] compute_dates_created [OF assms] by simp

theorem compute_dates_invariants_witness:
  "compute_dates 63852868800000000 63852868800000000 63852868800000000 63852868800001000
     1080 2 1 None None
   = (63759539479000023, 63775074158000029)
   \<and> (63759539479000023 :: int) \<le> 63852868800000000
   \<and> (63775074158000029 :: int) \<le> 63852868800000000
   \<and> (63759539479000023 :: int) \<le> 63775074158000029
   \<and> date_of (63852868800000000 - td_days 1080) \<le> date_of 63759539479000023"
  using compute_dates_invariants [OF compute_dates_example] compute_dates_example
  by simp

subsection \<open>The reference modification date\<close>

lemma compute_dates_modified_ref_unused:
  "compute_dates now now_a now_b now_c D n i created_ref modified_ref
   = compute_dates now now_a' now_b' now_c D n i created_ref None"
  by (simp add: compute_dates_def Let_def)

text \<open>
  One record read at 2024-06-01T20:00:00 whose original item has the modification date
  2024-05-22T09:00:00 (63851965200000000) and no creation date.
\<close>

lemma days_ago_single: "position_days_ago 1080 1 0 = 540"
  by (simp add: position_days_ago_def Let_def)

lemma created_single: "created_from_position 63852868800000000 63852868800001000 1080 1 0 = 63806169600000000"
  by (simp add: created_from_position_def days_ago_single created_time_of_day_def replace_time_def date_of_def
      td_days_def DAY_def Let_def)

lemma days_variation_single: "days_variation_first 1 0 = 30"
  by (simp add: days_variation_first_def Let_def)

lemma modified_single: "mod_date (modified_from_created 63852868800000000 1 0 63806169600000000) = 63808790400000000"
  by (simp add: modified_from_created_def modified_first_def days_variation_single replace_mod_def replace_time_def
      date_of_def dt_hour_def dt_minute_def dt_second_def td_days_def DAY_def Let_def)

text \<open>
  C2. A reference modification date that exists, parses and is not in the future should be
  the record's final modification date. The code stores it in \<^verbatim>\<open>modified_date\<close> (lines
  169-174) and then assigns \<^verbatim>\<open>modified_date\<close> anew from the creation date (line 209)
  without the \<^verbatim>\<open>is None\<close> guard that the creation date has (line 176): for the record
  above the dates written are 2022-12-09T08:00:00 (63806169600000000) and
  2023-01-08T16:00:00 (63808790400000000), not the reference.
\<close>

theorem compute_dates_ignores_reference_modified:
  "compute_dates 63852868800000000 63852868800000500 63852868800000600 63852868800001000
     1080 1 0 None (Some 63851965200000000)
   = (63806169600000000, 63808790400000000)
   \<and> (63851965200000000 :: int) \<le> 63852868800000000
   \<and> (63808790400000000 :: int) \<noteq> 63851965200000000"
  by (simp add: compute_dates_def created_single modified_single enforce_order_def reclamp_created_def
      clamp_modified_def Let_def)

subsection \<open>Creation-day offsets without reference dates\<close>

lemma py_int_mono: "x \<le> y \<Longrightarrow> py_int x \<le> py_int y"
proof -
  assume xy: "x \<le> y"
  show ?thesis
  proof (cases "0 \<le> x")
    case True
    then show ?thesis using xy by (simp add: py_int_def floor_mono)
  next
    case False
    note nx = False
    show ?thesis
    proof (cases "0 \<le> y")
      case True
      have a: "\<lceil>x\<rceil> \<le> 0" using nx by (simp add: ceiling_le_zero)
      have b: "0 \<le> \<lfloor>y\<rfloor>" using True by simp
      have c: "py_int x = \<lceil>x\<rceil>" using nx by (simp add: py_int_def)
      have d: "py_int y = \<lfloor>y\<rfloor>" using True by (simp add: py_int_def)
      show ?thesis unfolding c d using a b by (rule order_trans)
    next
      case False
      then show ?thesis using nx xy by (simp add: py_int_def ceiling_mono)
    qed
  qed
qed

lemma py_int_of_int: "py_int (real_of_int k) = k"
  by (simp add: py_int_def)

lemma position_days_ago_multi:
  assumes "1 < n"
  shows "position_days_ago D n i = max 1 (min (py_int (days_ago_float D n i)) D)"
  using assms by (simp add: position_days_ago_def days_ago_float_def Let_def)

lemma double_bounds:
  assumes "0 \<le> x"
  shows "0 \<le> double x \<and> double x \<le> 2 * x \<and> \<bar>double x - x\<bar> \<le> x / 2 ^ 53"
proof -
  have e: "\<bar>double x - x\<bar> \<le> x / 2 ^ 53"
    using double_error [of x] assms by simp
  have "x / 2 ^ 53 \<le> x" using assms by (simp add: field_simps)
  then show ?thesis using e by linarith
qed

lemma days_ago_float_error:
  assumes n: "1 < n" and i: "0 \<le> i" "i \<le> n - 1" and D: "1 \<le> D" "D \<le> 2 ^ 20"
  shows "\<bar>days_ago_float D n i - days_ago_exact D n i\<bar> \<le> 21 * of_int D / 2 ^ 53"
proof -
  define u :: real where "u = 1 / 2 ^ 53"
  define a :: real where "a = of_int i / of_int (n - 1)"
  define Dm :: real where "Dm = of_int (D - 1)"
  define Dr :: real where "Dr = of_int D"
  define v where "v = (i * 17) mod max 10 (D div 20)"
  define V :: real where "V = of_int v"
  have u0: "0 \<le> u" and u1: "u \<le> 1 / 2" by (simp_all add: u_def)
  have Dm0: "0 \<le> Dm" using D by (simp add: Dm_def)
  have DmDr: "Dm = Dr - 1" by (simp add: Dm_def Dr_def)
  have Dr1: "1 \<le> Dr" using D by (simp add: Dr_def)
  have v0: "0 \<le> v" by (simp add: v_def)
  have "v < max 10 (D div 20)" unfolding v_def by (intro pos_mod_bound) simp
  moreover have "max 10 (D div 20) \<le> 10 * D" using D by simp
  ultimately have v1: "v \<le> 10 * D" by linarith
  have V0: "0 \<le> V" using v0 by (simp add: V_def)
  have "real_of_int v \<le> real_of_int (10 * D)" using v1 by (simp only: of_int_le_iff)
  then have V1: "V \<le> 10 * Dr" by (simp add: V_def Dr_def)
  have fD: "float_of_int (D - 1) = Dm"
    unfolding Dm_def using D by (intro float_of_int_exact) simp
  have f1: "float_of_int 1 = 1"
    using float_of_int_exact [of 1] by simp
  have fv: "float_of_int v = V"
    unfolding V_def using v0 v1 D by (intro float_of_int_exact) simp
  have a0: "0 \<le> a" using i n by (simp add: a_def)
  have "real_of_int i \<le> real_of_int (n - 1)" using i by (simp only: of_int_le_iff)
  then have a1: "a \<le> 1" using n by (simp add: a_def)
  define q where "q = double a"
  have q: "0 \<le> q \<and> q \<le> 2 * a \<and> \<bar>q - a\<bar> \<le> a * u"
    using double_bounds [OF a0] by (simp add: q_def u_def)
  have "a * u \<le> 1 * u" using a1 u0 by (intro mult_right_mono) simp_all
  then have qa: "\<bar>q - a\<bar> \<le> u" using q by linarith
  have q2: "q \<le> 2" using q a1 by linarith
  define b where "b = q * Dm"
  have b0: "0 \<le> b" using q Dm0 by (simp add: b_def)
  have "q * Dm \<le> 2 * Dm" using q2 Dm0 by (intro mult_right_mono) simp_all
  then have b2: "b \<le> 2 * Dm" by (simp add: b_def)
  have "b - a * Dm = (q - a) * Dm" by (simp add: b_def algebra_simps)
  then have "\<bar>b - a * Dm\<bar> = \<bar>q - a\<bar> * Dm" using Dm0 by (simp add: abs_mult)
  also have "\<dots> \<le> u * Dm" using qa Dm0 by (intro mult_right_mono) simp_all
  finally have e1: "\<bar>b - a * Dm\<bar> \<le> u * Dm" .
  define p where "p = double b"
  have p: "0 \<le> p \<and> p \<le> 2 * b \<and> \<bar>p - b\<bar> \<le> b * u"
    using double_bounds [OF b0] by (simp add: p_def u_def)
  have "b * u \<le> (2 * Dm) * u" using b2 u0 by (intro mult_right_mono) simp_all
  then have e2: "\<bar>p - b\<bar> \<le> 2 * Dm * u" using p by linarith
  have "2 * Dm * u \<le> 2 * Dm * (1 / 2)" using u1 Dm0 by (intro mult_left_mono) simp_all
  then have p3: "p \<le> 3 * Dm" using e2 b2 by linarith
  define c where "c = 1 + p"
  have c0: "0 \<le> c" using p by (simp add: c_def)
  have c3: "c \<le> 3 * Dr" using p3 DmDr by (simp add: c_def)
  define l where "l = double c"
  have l: "0 \<le> l \<and> l \<le> 2 * c \<and> \<bar>l - c\<bar> \<le> c * u"
    using double_bounds [OF c0] by (simp add: l_def u_def)
  have "c * u \<le> (3 * Dr) * u" using c3 u0 by (intro mult_right_mono) simp_all
  then have e3: "\<bar>l - c\<bar> \<le> 3 * Dr * u" using l by linarith
  have "3 * Dr * u \<le> 3 * Dr * (1 / 2)" using u1 Dr1 by (intro mult_left_mono) simp_all
  then have l4: "l \<le> 5 * Dr" using e3 c3 by linarith
  define g where "g = l + V"
  have g0: "0 \<le> g" using l V0 by (simp add: g_def)
  have g15: "g \<le> 15 * Dr" using l4 V1 by (simp add: g_def)
  define s where "s = double g"
  have s: "0 \<le> s \<and> s \<le> 2 * g \<and> \<bar>s - g\<bar> \<le> g * u"
    using double_bounds [OF g0] by (simp add: s_def u_def)
  have "g * u \<le> (15 * Dr) * u" using g15 u0 by (intro mult_right_mono) simp_all
  then have e4: "\<bar>s - g\<bar> \<le> 15 * Dr * u" using s by linarith
  have "Dm * u \<le> Dr * u" using DmDr u0 by (intro mult_right_mono) simp_all
  then have e0: "Dm * u \<le> Dr * u" .
  define x1 where "x1 = Dm * u"
  define x2 where "x2 = Dr * u"
  have "x1 \<le> x2" using e0 by (simp add: x1_def x2_def)
  moreover have "\<bar>b - a * Dm\<bar> \<le> x1" using e1 by (simp add: x1_def mult.commute)
  moreover have "\<bar>p - b\<bar> \<le> 2 * x1" using e2 by (simp add: x1_def)
  moreover have "\<bar>l - c\<bar> \<le> 3 * x2" using e3 by (simp add: x2_def)
  moreover have "\<bar>s - g\<bar> \<le> 15 * x2" using e4 by (simp add: x2_def)
  moreover have "s - (1 + a * Dm + V) = (s - g) + (l - c) + (p - b) + (b - a * Dm)"
    by (simp add: g_def c_def)
  ultimately have "\<bar>s - (1 + a * Dm + V)\<bar> \<le> 21 * x2" by linarith
  then have "\<bar>s - (1 + a * Dm + V)\<bar> \<le> 21 * Dr * u" by (simp add: x2_def)
  moreover have "days_ago_float D n i = s"
    by (simp add: days_ago_float_def float_add_def float_mul_def int_truediv_def f1 fD
        v_def [symmetric] fv s_def g_def l_def c_def p_def b_def q_def a_def)
  moreover have "days_ago_exact D n i = 1 + a * Dm + V"
    by (simp add: days_ago_exact_def a_def Dm_def V_def v_def)
  ultimately show ?thesis by (simp add: u_def Dr_def)
qed

lemma variation_drop:
  fixes i d :: int
  assumes "0 < d"
  shows "(i * 17) mod d - (d - 17 mod d) \<le> ((i + 1) * 17) mod d"
proof -
  define x where "x = (i * 17) mod d"
  define r where "r = 17 mod d"
  have x: "0 \<le> x" "x < d" using assms by (simp_all add: x_def)
  have r: "0 \<le> r" "r < d" using assms by (simp_all add: r_def)
  have "((i + 1) * 17) mod d = (i * 17 + 17) mod d" by (simp add: algebra_simps)
  also have "\<dots> = (x + r) mod d" unfolding x_def r_def by (rule mod_add_eq [symmetric])
  finally have e: "((i + 1) * 17) mod d = (x + r) mod d" .
  have "x + r - d \<le> (x + r) mod d"
  proof (cases "x + r < d")
    case True
    then have "(x + r) mod d = x + r" using x r by (intro mod_pos_pos_trivial) simp_all
    then show ?thesis using assms by simp
  next
    case False
    have "(x + r) mod d = (x + r - d) mod d" by simp
    also have "\<dots> = x + r - d" using False x r by (intro mod_pos_pos_trivial) simp_all
    finally show ?thesis by simp
  qed
  then show ?thesis unfolding e by (simp add: x_def r_def)
qed

lemma position_days_ago_step:
  assumes n: "2 \<le> n" and i: "0 \<le> i" "i + 1 \<le> n - 1" and D: "1 \<le> D" "D \<le> 2 ^ 20"
    and step: "(n - 1) * (max 10 (D div 20) - 17 mod max 10 (D div 20)) < D - 1"
  shows "position_days_ago D n i \<le> position_days_ago D n (i + 1)"
proof -
  define W where "W = max 10 (D div 20)"
  define k where "k = W - 17 mod W"
  define m :: real where "m = of_int (n - 1)"
  define Dm :: real where "Dm = of_int (D - 1)"
  define Dr :: real where "Dr = of_int D"
  define K :: real where "K = of_int k"
  define v where "v = (i * 17) mod W"
  define v' where "v' = ((i + 1) * 17) mod W"
  have W0: "0 < W" by (simp add: W_def)
  have "17 mod W < W" using W0 by (rule pos_mod_bound)
  then have k1: "1 \<le> k" by (simp add: k_def)
  have n1: "1 \<le> n - 1" using n by simp
  have m1: "1 \<le> m" using n by (simp add: m_def)
  define P where "P = (n - 1) * k"
  have st: "P + 1 \<le> D - 1" using step by (simp add: W_def k_def P_def)
  have "(n - 1) * 1 \<le> (n - 1) * k" using n1 k1 by (intro mult_left_mono) simp_all
  then have "n - 1 \<le> P" by (simp add: P_def)
  then have "n - 1 \<le> D" using st by linarith
  then have "real_of_int (n - 1) \<le> real_of_int D" by (simp only: of_int_le_iff)
  then have mD: "m \<le> Dr" by (simp add: m_def Dr_def)
  have "real_of_int D \<le> real_of_int (2 ^ 20)" using D by (simp only: of_int_le_iff)
  then have Dr20: "Dr \<le> 2 ^ 20" by (simp add: Dr_def)
  have Dr0: "0 \<le> Dr" using D by (simp add: Dr_def)
  have "real_of_int (P + 1) \<le> real_of_int (D - 1)" using st by (simp only: of_int_le_iff)
  then have mk: "m * K + 1 \<le> Dm" by (simp add: m_def K_def Dm_def P_def)
  have "(m * K + 1) / m \<le> Dm / m" using mk m1 by (intro divide_right_mono) simp_all
  moreover have "(m * K + 1) / m = K + 1 / m" using m1 by (simp add: field_simps)
  ultimately have gap: "K + 1 / m \<le> Dm / m" by simp
  have "v - k \<le> v'" unfolding v_def v'_def k_def by (rule variation_drop [OF W0])
  then have "real_of_int (v - k) \<le> real_of_int v'" by (simp only: of_int_le_iff)
  then have vv: "real_of_int v - K \<le> real_of_int v'" by (simp add: K_def)
  have "days_ago_exact D n (i + 1) - days_ago_exact D n i
      = (real_of_int i + 1) / m * Dm - real_of_int i / m * Dm + (real_of_int v' - real_of_int v)"
    by (simp add: days_ago_exact_def m_def Dm_def v_def v'_def W_def)
  also have "(real_of_int i + 1) / m * Dm - real_of_int i / m * Dm = Dm / m"
    using m1 by (simp add: field_simps)
  finally have ex: "days_ago_exact D n (i + 1) - days_ago_exact D n i
      = Dm / m + (real_of_int v' - real_of_int v)" .
  have exact: "1 / m \<le> days_ago_exact D n (i + 1) - days_ago_exact D n i"
    unfolding ex using gap vv by linarith
  have n': "1 < n" using n by simp
  have i': "i \<le> n - 1" "0 \<le> i + 1" using i by simp_all
  have er: "\<bar>days_ago_float D n i - days_ago_exact D n i\<bar> \<le> 21 * Dr / 2 ^ 53"
    unfolding Dr_def by (rule days_ago_float_error [OF n' i(1) i'(1) D])
  have er': "\<bar>days_ago_float D n (i + 1) - days_ago_exact D n (i + 1)\<bar> \<le> 21 * Dr / 2 ^ 53"
    unfolding Dr_def by (rule days_ago_float_error [OF n' i'(2) i(2) D])
  have "Dr * m \<le> 2 ^ 20 * 2 ^ 20"
    using Dr20 mD Dr0 m1 by (intro mult_mono) simp_all
  then have "42 * (Dr * m) \<le> 2 ^ 53" by simp
  then have "42 * Dr / 2 ^ 53 \<le> 1 / m" using m1 by (simp add: field_simps)
  then have "2 * (21 * Dr / 2 ^ 53) \<le> 1 / m" by simp
  then have "days_ago_float D n i \<le> days_ago_float D n (i + 1)"
    using exact er er' by linarith
  then have "py_int (days_ago_float D n i) \<le> py_int (days_ago_float D n (i + 1))"
    by (rule py_int_mono)
  then show ?thesis
    unfolding position_days_ago_multi [OF n'] by (simp add: max_def min_def)
qed

lemma position_days_ago_mono:
  assumes n: "2 \<le> n" and D: "1 \<le> D" "D \<le> 2 ^ 20"
    and step: "(n - 1) * (max 10 (D div 20) - 17 mod max 10 (D div 20)) < D - 1"
    and i: "0 \<le> i" and ij: "i \<le> j"
  shows "j < n \<longrightarrow> position_days_ago D n i \<le> position_days_ago D n j"
  using ij
proof (induction j rule: int_ge_induct)
  case base
  then show ?case by simp
next
  case (step j)
  show ?case
  proof
    assume jn: "j + 1 < n"
    then have "position_days_ago D n i \<le> position_days_ago D n j" using step.IH by simp
    moreover have "position_days_ago D n j \<le> position_days_ago D n (j + 1)"
      using i step.hyps jn by (intro position_days_ago_step [OF n _ _ D assms(4)]) simp_all
    ultimately show "position_days_ago D n i \<le> position_days_ago D n (j + 1)" by (rule order_trans)
  qed
qed

lemma double_0: "double 0 = 0"
  by (simp add: double_def)

lemma position_days_ago_first:
  assumes "2 \<le> n"
  shows "position_days_ago D n 0 = 1"
proof -
  have n: "1 < n" using assms by simp
  have f1: "float_of_int 1 = 1" "float_of_int 0 = 0"
    using float_of_int_exact [of 1] float_of_int_exact [of 0] by simp_all
  have d1: "double 1 = 1" using double_of_int [of 1] by simp
  have "days_ago_float D n 0 = 1"
    by (simp add: days_ago_float_def float_add_def float_mul_def int_truediv_def f1 double_0 d1)
  then show ?thesis
    unfolding position_days_ago_multi [OF n] by (simp add: py_int_def)
qed

lemma position_days_ago_last:
  assumes "2 \<le> n" and "1 \<le> D" and "D \<le> 2 ^ 20"
  shows "position_days_ago D n (n - 1) = D"
proof -
  have n: "1 < n" using assms by simp
  define v where "v = ((n - 1) * 17) mod max 10 (D div 20)"
  have v0: "0 \<le> v" by (simp add: v_def)
  have "v < max 10 (D div 20)" unfolding v_def by (intro pos_mod_bound) simp
  moreover have "max 10 (D div 20) \<le> 10 * D" using assms(2) by simp
  ultimately have v1: "v \<le> 10 * D" by linarith
  have f1: "float_of_int 1 = 1" using float_of_int_exact [of 1] by simp
  have fD: "float_of_int (D - 1) = of_int (D - 1)"
    using assms by (intro float_of_int_exact) simp
  have fv: "float_of_int v = of_int v"
    using v0 v1 assms by (intro float_of_int_exact) simp
  have d1: "double 1 = 1" using double_of_int [of 1] by simp
  have nz: "real_of_int (n - 1) \<noteq> 0" using n by simp
  have q: "int_truediv (n - 1) (n - 1) = 1" using nz by (simp add: int_truediv_def d1)
  have b: "float_mul 1 (real_of_int (D - 1)) = real_of_int (D - 1)"
    using assms by (simp only: float_mul_def mult_1) (intro double_of_int, simp)
  have "1 + real_of_int (D - 1) = real_of_int D" by simp
  then have c: "float_add 1 (real_of_int (D - 1)) = real_of_int D"
    using assms double_of_int [of D] by (simp add: float_add_def)
  have "real_of_int D + real_of_int v = real_of_int (D + v)" by simp
  moreover have "double (real_of_int (D + v)) = real_of_int (D + v)"
    using assms v0 v1 by (intro double_of_int) simp
  ultimately have g: "float_add (real_of_int D) (real_of_int v) = real_of_int (D + v)"
    by (simp only: float_add_def)
  have "days_ago_float D n (n - 1) = real_of_int (D + v)"
    unfolding days_ago_float_def v_def [symmetric] f1 fD fv q b c g ..
  then have "py_int (days_ago_float D n (n - 1)) = D + v" by (simp only: py_int_of_int)
  then show ?thesis
    unfolding position_days_ago_multi [OF n] using v0 assms(2) by (simp add: max_def min_def)
qed

text \<open>
  2049 records over 1080 days: index 3 has \<^verbatim>\<open>int(1 + 3/2048*1079 + 51) = 53\<close> days ago,
  index 4 has \<^verbatim>\<open>int(1 + 4/2048*1079 + 14) = 17\<close>.
\<close>

lemma days_ago_2049_3: "position_days_ago 1080 2049 3 = 53"
  by code_simp

lemma days_ago_2049_4: "position_days_ago 1080 2049 4 = 17"
  by code_simp

theorem position_days_ago_not_monotone_counterexample:
  "position_days_ago 1080 2049 3 = 53 \<and> position_days_ago 1080 2049 4 = 17
   \<and> position_days_ago 1080 2049 4 < position_days_ago 1080 2049 3"
  by (simp add: days_ago_2049_3 days_ago_2049_4)

text \<open>
  With exact arithmetic one step of the size of the largest drop would be enough. With
  floats it is not: 27 records over 79 days have the step 78 / 26 = 3 and the drop 10 - 7,
  and index 14 has 51 days ago, index 15 has 50.
\<close>

lemma position_days_ago_equal_step_example:
  "(27 - 1) * (max 10 (79 div 20) - 17 mod max 10 (79 div 20)) = (79 - 1 :: int)
   \<and> position_days_ago 79 27 14 = 51 \<and> position_days_ago 79 27 15 = 50"
  by code_simp

text \<open>
  C8 (amended). For a batch of size N \<ge> 2 with no reference dates and shuffle disabled, and
  a lookback of 1 to \<open>2\<^sup>2\<^sup>0\<close> days, the first record has 1 day ago and the last has
  \<open>lookback_days\<close>, so the values span exactly \<open>[1, lookback_days]\<close>. They are monotonically
  non-decreasing in the record index whenever one step of the linear interpolation is
  larger than the largest drop of the variation, that is
  \<open>(N - 1) * (divisor - 17 mod divisor) < lookback_days - 1\<close> with
  \<open>divisor = max 10 (lookback_days div 20)\<close> (for 1080 days: up to N = 30); without this
  they need not be.
\<close>

theorem position_days_ago_span_and_monotone:
  assumes "2 \<le> total_items" and "1 \<le> days_range" and "days_range \<le> 2 ^ 20"
  shows "position_days_ago days_range total_items (index_mapping False shuffled_indices 0) = 1
     \<and> position_days_ago days_range total_items
          (index_mapping False shuffled_indices (nat (total_items - 1))) = days_range
     \<and> ((total_items - 1) * (max 10 (days_range div 20) - 17 mod max 10 (days_range div 20))
            < days_range - 1 \<longrightarrow>
          (\<forall>i j. i \<le> j \<and> int j < total_items \<longrightarrow>
             position_days_ago days_range total_items (index_mapping False shuffled_indices i)
               \<le> position_days_ago days_range total_items (index_mapping False shuffled_indices j)))"
proof (intro conjI impI allI)
  show "position_days_ago days_range total_items (index_mapping False shuffled_indices 0) = 1"
    using position_days_ago_first [OF assms(1)] by (simp add: index_mapping_def)
  have "int (nat (total_items - 1)) = total_items - 1" using assms(1) by simp
  then show "position_days_ago days_range total_items
          (index_mapping False shuffled_indices (nat (total_items - 1))) = days_range"
    using position_days_ago_last [OF assms] by (simp add: index_mapping_def)
next
  fix i j :: nat
  assume st: "(total_items - 1) * (max 10 (days_range div 20) - 17 mod max 10 (days_range div 20))
            < days_range - 1"
    and ij: "i \<le> j \<and> int j < total_items"
  have "int j < total_items \<longrightarrow>
      position_days_ago days_range total_items (int i) \<le> position_days_ago days_range total_items (int j)"
    using ij by (intro position_days_ago_mono [OF assms st]) simp_all
  then show "position_days_ago days_range total_items (index_mapping False shuffled_indices i)
               \<le> position_days_ago days_range total_items (index_mapping False shuffled_indices j)"
    using ij by (simp add: index_mapping_def)
qed

lemma days_ago_30_3: "position_days_ago 1080 30 3 = 163"
  by code_simp

lemma days_ago_30_4: "position_days_ago 1080 30 4 = 163"
  by code_simp

theorem position_days_ago_span_and_monotone_witness:
  "position_days_ago 1080 30 3 = 163 \<and> position_days_ago 1080 30 4 = 163
   \<and> position_days_ago 1080 30 (index_mapping False [] 3)
       \<le> position_days_ago 1080 30 (index_mapping False [] 4)
   \<and> position_days_ago 1080 30 0 = 1 \<and> position_days_ago 1080 30 29 = 1080
   \<and> (30 - 1) * (max 10 (1080 div 20) - 17 mod max 10 (1080 div 20)) < (1080 - 1 :: int)"
  using position_days_ago_span_and_monotone [of 30 1080 "[]"] days_ago_30_3 days_ago_30_4
  by (simp add: index_mapping_def)

end
